theory Spec2Isabelle
  imports Complex_Main "HOL-Library.Monad_Syntax" "HOL-Library.Word"
    "HOL-Library.Log_Nat"
begin

section \<open>Python values and errors\<close>

text \<open>
  Python integers are unbounded and are modelled by \<open>int\<close>. Every exception the
  source can raise is a value of \<open>error\<close>. In \<open>size_utils.py\<close> and \<open>detect.py\<close>
  true division is taken exactly, over the rationals; in \<open>scale.py\<close>,
  \<open>pad_crop.py\<close> and \<open>alpha_fix.py\<close> every float operation is rounded to the
  nearest float.
\<close>

datatype error =
    AssertionError string
  | ValueError string
  | ZeroDivisionError
  | RuntimeError string
  | OSError string

type_synonym 'a result = "error + 'a"

definition bind_result :: "'a result \<Rightarrow> ('a \<Rightarrow> 'b result) \<Rightarrow> 'b result" where
  "bind_result r f = (case r of Inl e \<Rightarrow> Inl e | Inr v \<Rightarrow> f v)"

text \<open>
  A computation that may raise and may contain a loop: \<open>None\<close> is "does not return",
  \<open>Some (Inl e)\<close> is "raises e", \<open>Some (Inr v)\<close> is "returns v".
\<close>

type_synonym 'a comp = "'a result option"

definition returns :: "'a \<Rightarrow> 'a comp" where
  "returns v = Some (Inr v)"

definition raises :: "error \<Rightarrow> 'a comp" where
  "raises e = Some (Inl e)"

definition of_loop :: "'a option \<Rightarrow> 'a comp" where
  "of_loop l = (case l of None \<Rightarrow> None | Some v \<Rightarrow> Some (Inr v))"

definition bind_comp :: "'a comp \<Rightarrow> ('a \<Rightarrow> 'b comp) \<Rightarrow> 'b comp" where
  "bind_comp c f = (case c of None \<Rightarrow> None | Some (Inl e) \<Rightarrow> Some (Inl e) | Some (Inr v) \<Rightarrow> f v)"

text \<open>True division of two numbers, taken exactly: division by zero raises.\<close>

definition truediv :: "rat \<Rightarrow> rat \<Rightarrow> rat result" where
  "truediv a b = (if b = 0 then Inl ZeroDivisionError else Inr (a / b))"

text \<open>Python 3 \<open>round(x)\<close> with one argument: nearest integer, a tie goes to the even one.\<close>

definition py_round :: "rat \<Rightarrow> int" where
  "py_round q =
     (let f = \<lfloor>q\<rfloor>; d = q - of_int f
      in if d < 1 / 2 then f
         else if 1 / 2 < d then f + 1
         else if even f then f else f + 1)"

text \<open>Python \<open>int(x)\<close> on a float: truncation toward zero.\<close>

definition py_int :: "rat \<Rightarrow> int" where
  "py_int q = (if 0 \<le> q then \<lfloor>q\<rfloor> else \<lceil>q\<rceil>)"

text \<open>\<open>str(n)\<close> of an integer: its decimal digits.\<close>

function str_nat :: "nat \<Rightarrow> string" where
  "str_nat n =
     (if n < 10 then [''0123456789'' ! n]
      else str_nat (n div 10) @ [''0123456789'' ! (n mod 10)])"
  by pat_completeness auto
termination
  by (relation "measure id") auto

definition str_int :: "int \<Rightarrow> string" where
  "str_int i = (if i < 0 then ''-'' @ str_nat (nat (- i)) else str_nat (nat i))"

section \<open>size\_utils.py\<close>

text \<open>
  The loop \<open>while power < value: power <<= 1\<close>. It does not return from a
  non-positive \<open>power\<close> below \<open>value\<close>, so it is a partial function: \<open>None\<close> is
  "does not return".
\<close>

partial_function (option) pow2_loop :: "int \<Rightarrow> int \<Rightarrow> int option" where
  "pow2_loop p v = (if p < v then pow2_loop (p * 2) v else Some p)"

declare pow2_loop.simps [code]

definition round_to_power_of_two :: "int \<Rightarrow> int option" where
  "round_to_power_of_two v =
     (if v \<le> 0 then Some 1
      else do {
        p \<leftarrow> pow2_loop 1 v;
        if p - v < v - p div 2 then Some p
        else Some (if p div 2 > 0 then p div 2 else 1)
      })"

definition round_to_multiple :: "int \<Rightarrow> int \<Rightarrow> int result" where
  "round_to_multiple v m =
     (if v \<le> 0 then Inr m
      else if m = 0 then Inl ZeroDivisionError
      else Inr (py_round (of_int v / of_int m) * m))"

definition auto_suggest_size :: "int \<Rightarrow> int \<Rightarrow> bool \<Rightarrow> (int \<times> int) comp" where
  "auto_suggest_size width height prefer_power_of_two =
     (if width \<le> 0 \<or> height \<le> 0 then returns (256, 256)
      else
        bind_comp (Some (truediv (of_int width) (of_int height))) (\<lambda>aspect.
        let long_side = max width height in
        bind_comp (if prefer_power_of_two then of_loop (round_to_power_of_two long_side)
                   else Some (round_to_multiple long_side 8)) (\<lambda>suggested_long.
        bind_comp (if width \<ge> height
                   then bind_comp (Some (truediv (of_int suggested_long) aspect)) (\<lambda>q.
                          returns (suggested_long, max 8 (py_round q)))
                   else returns (max 8 (py_round (of_int suggested_long * aspect)), suggested_long))
          (\<lambda>(suggested_w, suggested_h).
        bind_comp (Some (round_to_multiple suggested_w 8)) (\<lambda>suggested_w'.
        bind_comp (Some (round_to_multiple suggested_h 8)) (\<lambda>suggested_h'.
        returns (suggested_w', suggested_h')))))))"

text \<open>
  \<open>mode\<close> is a Python string; \<open>custom_width\<close> and \<open>custom_height\<close> are
  \<open>Optional[int]\<close>. The default of \<open>multiple\<close> is 8.
\<close>

definition calculate_target_size ::
    "int \<Rightarrow> int \<Rightarrow> string \<Rightarrow> int option \<Rightarrow> int option \<Rightarrow> int \<Rightarrow> (int \<times> int) comp" where
  "calculate_target_size width height mode custom_width custom_height multiple =
     (if mode = ''custom'' then
        (case (custom_width, custom_height) of
           (Some cw, Some ch) \<Rightarrow> returns (cw, ch)
         | _ \<Rightarrow> raises (ValueError ''custom_width and custom_height required for custom mode''))
      else if mode = ''power_of_two'' then
        bind_comp (if height > 0 then Some (truediv (of_int width) (of_int height)) else returns 1)
          (\<lambda>aspect.
        let long_side = max width height in
        bind_comp (of_loop (round_to_power_of_two long_side)) (\<lambda>suggested_long.
        if width \<ge> height
        then bind_comp (Some (truediv (of_int suggested_long) aspect)) (\<lambda>q.
             bind_comp (of_loop (round_to_power_of_two (py_round q))) (\<lambda>r.
             returns (suggested_long, max 8 r)))
        else bind_comp (of_loop (round_to_power_of_two (py_round (of_int suggested_long * aspect))))
               (\<lambda>r. returns (max 8 r, suggested_long))))
      else if mode = ''multiple'' then
        bind_comp (if height > 0 then Some (truediv (of_int width) (of_int height)) else returns 1)
          (\<lambda>aspect.
        let long_side = max width height in
        bind_comp (Some (round_to_multiple long_side multiple)) (\<lambda>suggested_long.
        if width \<ge> height
        then bind_comp (Some (truediv (of_int suggested_long) aspect)) (\<lambda>q.
             bind_comp (Some (round_to_multiple (py_round q) multiple)) (\<lambda>r.
             returns (suggested_long, max multiple r)))
        else bind_comp (Some (round_to_multiple (py_round (of_int suggested_long * aspect)) multiple))
               (\<lambda>r. returns (max multiple r, suggested_long))))
      else auto_suggest_size width height True)"

section \<open>Floating point\<close>

text \<open>
  A Python float is an IEEE double and a NumPy \<open>float32\<close> an IEEE single. A float is
  modelled by the rational it denotes, and every arithmetic operation by the exact
  operation followed by rounding to the nearest float, a tie going to the even mantissa:
  the value is scaled so that its integer part has \<open>p\<close> bits (53 for a double, 24 for a
  single), rounded to an integer and scaled back. The exponent range is not limited:
  overflow and subnormal numbers are not modelled. An integer below \<open>2 ^ p\<close> converts
  to a float without rounding.
\<close>

definition float_exponent :: "nat \<Rightarrow> rat \<Rightarrow> int" where
  "float_exponent p q =
     (let (a, b) = quotient_of \<bar>q\<bar>;
          d = bitlen a - bitlen b
      in (if 2 powi d \<le> \<bar>q\<bar> then d else d - 1) - (int p - 1))"

definition round_float :: "nat \<Rightarrow> rat \<Rightarrow> rat" where
  "round_float p q =
     (if q = 0 then 0
      else of_int (py_round (q / 2 powi float_exponent p q)) * 2 powi float_exponent p q)"

definition float64 :: "rat \<Rightarrow> rat" where
  "float64 q = round_float 53 q"

definition float32 :: "rat \<Rightarrow> rat" where
  "float32 q = round_float 24 q"

text \<open>True division giving a float: division by zero raises, the quotient is rounded.\<close>

definition float_div :: "rat \<Rightarrow> rat \<Rightarrow> rat result" where
  "float_div a b = (if b = 0 then Inl ZeroDivisionError else Inr (float64 (a / b)))"

section \<open>Images\<close>

text \<open>
  A pixel has four 8-bit channels. An image is what the code reads of a PIL image: its
  \<open>mode\<close> string, its size, and its pixels. \<open>im_pix img x y\<close> is the pixel in column
  \<open>x\<close> and row \<open>y\<close> as \<open>convert("RGBA")\<close> presents it; for an image of mode
  \<open>RGBA\<close> that is the stored pixel. Only positions inside the size are meaningful.
\<close>

record pixel =
  red :: "8 word"
  green :: "8 word"
  blue :: "8 word"
  alpha :: "8 word"

record image =
  im_mode :: string
  im_width :: nat
  im_height :: nat
  im_pix :: "nat \<Rightarrow> nat \<Rightarrow> pixel"

definition transparent :: pixel where
  "transparent = \<lparr>red = 0, green = 0, blue = 0, alpha = 0\<rparr>"

text \<open>
  The image libraries (PIL resampling, OpenCV) are not part of the repository. Their
  filters are parameters of the model: each gives the pixels (or the alpha plane) of the
  filtered image.
\<close>

datatype inpaint_flag = INPAINT_TELEA | INPAINT_NS

type_synonym resample = "image \<Rightarrow> nat \<Rightarrow> nat \<Rightarrow> nat \<Rightarrow> nat \<Rightarrow> pixel"

record lib =
  lanczos :: resample
  nearest :: resample
  cv2_inpaint :: "inpaint_flag \<Rightarrow> image \<Rightarrow> nat \<Rightarrow> nat \<Rightarrow> pixel"
  cv2_dilate :: "int \<Rightarrow> image \<Rightarrow> nat \<Rightarrow> nat \<Rightarrow> 8 word"
  cv2_gaussian_blur :: "rat \<Rightarrow> image \<Rightarrow> nat \<Rightarrow> nat \<Rightarrow> 8 word"
  saliency :: "image \<Rightarrow> int \<times> int \<times> int \<times> int"

text \<open>\<open>Image.new("RGBA", (w, h), (0, 0, 0, 0))\<close>: a negative size raises.\<close>

definition image_new :: "int \<Rightarrow> int \<Rightarrow> image result" where
  "image_new w h =
     (if w < 0 \<or> h < 0 then Inl (ValueError ''Width and height must be >= 0'')
      else Inr \<lparr>im_mode = ''RGBA'', im_width = nat w, im_height = nat h, im_pix = (\<lambda>x y. transparent)\<rparr>)"

text \<open>
  \<open>canvas.paste(img, (x, y))\<close> without a mask: the pixels of \<open>img\<close>, converted to the
  mode of the canvas, replace those of the canvas in the box at \<open>(x, y)\<close>; what falls
  outside the canvas is dropped.
\<close>

definition paste :: "image \<Rightarrow> image \<Rightarrow> int \<times> int \<Rightarrow> image" where
  "paste canvas img box =
     canvas\<lparr>im_pix := (\<lambda>cx cy.
        let sx = int cx - fst box; sy = int cy - snd box
        in if 0 \<le> sx \<and> sx < int (im_width img) \<and> 0 \<le> sy \<and> sy < int (im_height img)
           then im_pix img (nat sx) (nat sy) else im_pix canvas cx cy)\<rparr>"

text \<open>
  \<open>img.crop((x0, y0, x1, y1))\<close>: the box becomes the new image; positions of the box
  outside the source are transparent.
\<close>

definition crop :: "image \<Rightarrow> int \<times> int \<times> int \<times> int \<Rightarrow> image result" where
  "crop img box =
     (case box of (x0, y0, x1, y1) \<Rightarrow>
        if x1 < x0 then Inl (ValueError ''Coordinate right is less than left'')
        else if y1 < y0 then Inl (ValueError ''Coordinate lower is less than upper'')
        else Inr \<lparr>im_mode = im_mode img, im_width = nat (x1 - x0), im_height = nat (y1 - y0),
                 im_pix = (\<lambda>x y.
                   let sx = int x + x0; sy = int y + y0
                   in if 0 \<le> sx \<and> sx < int (im_width img) \<and> 0 \<le> sy \<and> sy < int (im_height img)
                      then im_pix img (nat sx) (nat sy) else transparent)\<rparr>)"

text \<open>
  \<open>img.resize((w, h), resample=f)\<close>: an image that already has the size is
  copied; a size below 1 raises; otherwise the filter \<open>f\<close> gives the pixels. The source
  image is taken to be non-empty.
\<close>

definition pil_resize :: "resample \<Rightarrow> image \<Rightarrow> int \<times> int \<Rightarrow> image result" where
  "pil_resize f img target_wh =
     (if (int (im_width img), int (im_height img)) = target_wh then Inr img
      else if fst target_wh < 1 \<or> snd target_wh < 1 then Inl (ValueError ''height and width must be > 0'')
      else Inr \<lparr>im_mode = im_mode img, im_width = nat (fst target_wh), im_height = nat (snd target_wh),
               im_pix = f img (nat (fst target_wh)) (nat (snd target_wh))\<rparr>)"

section \<open>detect.py\<close>


definition is_alpha_bbox_meaningful ::
    "image \<Rightarrow> int \<times> int \<times> int \<times> int \<Rightarrow> rat \<Rightarrow> bool result" where
  "is_alpha_bbox_meaningful pil_img bbox min_trim_ratio =
     (case bbox of (x0, y0, x1, y1) \<Rightarrow>
        let img_w = int (im_width pil_img); img_h = int (im_height pil_img);
            original_area = img_w * img_h;
            bbox_area = (x1 - x0 + 1) * (y1 - y0 + 1)
        in bind_result (truediv (of_int bbox_area) (of_int original_area)) (\<lambda>q.
           let trim_ratio = 1 - q in
           bind_result (truediv (of_int (x1 - x0 + 1)) (of_int img_w)) (\<lambda>width_ratio.
           bind_result (truediv (of_int (y1 - y0 + 1)) (of_int img_h)) (\<lambda>height_ratio.
           Inr (trim_ratio \<ge> min_trim_ratio \<or> width_ratio < 95 / 100 \<or> height_ratio < 95 / 100)))))"

text \<open>The default of \<open>min_trim_ratio\<close> is 0.05.\<close>

definition min_trim_ratio_default :: rat where
  "min_trim_ratio_default = 5 / 100"


section \<open>alpha\_fix.py\<close>

text \<open>
  One pixel of \<open>unpremultiply_rgba\<close>. The array is converted to float32, which holds
  every 8-bit value exactly; the division by 255 and the division of a colour by the
  clipped alpha are float32 operations, each rounded to the nearest float32, and the
  constant \<open>1e-5\<close> is taken at that precision. \<open>astype(np.uint8)\<close> truncates a
  value that \<open>np.clip\<close> has put between 0 and 255.
\<close>

definition np_clip :: "rat \<Rightarrow> rat \<Rightarrow> rat \<Rightarrow> rat" where
  "np_clip x lo hi = min (max x lo) hi"

definition as_uint8 :: "rat \<Rightarrow> 8 word" where
  "as_uint8 x = word_of_int (py_int x)"

definition unpremultiply_pixel :: "pixel \<Rightarrow> pixel" where
  "unpremultiply_pixel p =
     (let r = of_nat (unat (red p)) :: rat;
          g = of_nat (unat (green p)) :: rat;
          b = of_nat (unat (blue p)) :: rat;
          a = float32 (of_nat (unat (alpha p)) / 255);
          mask = (a > float32 (1 / 100000));
          d = np_clip a (float32 (1 / 100000)) 1;
          r' = (if mask then float32 (r / d) else r);
          g' = (if mask then float32 (g / d) else g);
          b' = (if mask then float32 (b / d) else b)
      in \<lparr>red = as_uint8 (np_clip r' 0 255), green = as_uint8 (np_clip g' 0 255),
          blue = as_uint8 (np_clip b' 0 255), alpha = as_uint8 (of_nat (unat (alpha p)))\<rparr>)"

definition unpremultiply_rgba :: "image \<Rightarrow> image" where
  "unpremultiply_rgba pil_img =
     (if im_mode pil_img \<noteq> ''RGBA'' then pil_img
      else pil_img\<lparr>im_pix := (\<lambda>x y. unpremultiply_pixel (im_pix pil_img x y))\<rparr>)"



section \<open>scale.py\<close>



definition resize_lanczos_to_box :: "lib \<Rightarrow> image \<Rightarrow> int \<times> int \<Rightarrow> image result" where
  "resize_lanczos_to_box l pil_img target_wh = pil_resize (lanczos l) pil_img target_wh"

definition resize_lanczos_fit_long :: "lib \<Rightarrow> image \<Rightarrow> int \<Rightarrow> image result" where
  "resize_lanczos_fit_long l pil_img target_long =
     (let w = int (im_width pil_img); h = int (im_height pil_img);
          long_side = max w h
      in if long_side \<le> target_long then Inr pil_img
         else if w \<ge> h then
           bind_result (float_div (of_int target_long) (of_int w)) (\<lambda>s.
           let new_w = target_long; new_h = max 1 (py_int (float64 (of_int h * s)))
           in pil_resize (lanczos l) pil_img (new_w, new_h))
         else
           bind_result (float_div (of_int target_long) (of_int h)) (\<lambda>s.
           let new_h = target_long; new_w = max 1 (py_int (float64 (of_int w * s)))
           in pil_resize (lanczos l) pil_img (new_w, new_h)))"

section \<open>pad\_crop.py\<close>

definition aspect_delta :: "int \<Rightarrow> int \<Rightarrow> rat" where
  "aspect_delta w h = \<bar>float64 (float64 (of_int w / max 1 (of_int h)) - 1)\<bar>"

text \<open>
  The \<open>assert\<close> of \<open>pad_to_square\<close> raises \<open>AssertionError\<close> with the formatted
  message. The inpainting branch hands the canvas to OpenCV and builds a new RGBA image of
  the same size from the result.
\<close>

definition pad_to_square :: "lib \<Rightarrow> image \<Rightarrow> int \<Rightarrow> bool \<Rightarrow> string \<Rightarrow> image result" where
  "pad_to_square l pil_img side inpaint method =
     (let w = int (im_width pil_img); h = int (im_height pil_img)
      in if \<not> (w \<le> side \<and> h \<le> side) then
           Inl (AssertionError (''pad_to_square invariant violated: '' @ str_int w @ ''x''
                  @ str_int h @ '' > '' @ str_int side @ ''x'' @ str_int side))
         else if w = side \<and> h = side then Inr pil_img
         else
           bind_result (image_new side side) (\<lambda>canvas0.
           let x = (side - w) div 2;
               y = (side - h) div 2;
               canvas = paste canvas0 pil_img (x, y)
           in if \<not> inpaint then Inr canvas
              else Inr (canvas\<lparr>im_mode := ''RGBA'',
                     im_pix := cv2_inpaint l (if method = ''telea'' then INPAINT_TELEA else INPAINT_NS)
                                 canvas\<rparr>)))"

definition smart_square :: "lib \<Rightarrow> image \<Rightarrow> int \<Rightarrow> bool \<Rightarrow> bool \<Rightarrow> image result" where
  "smart_square l pil_img side use_saliency allow_crop =
     (let w = int (im_width pil_img); h = int (im_height pil_img)
      in if w = side \<and> h = side then Inr pil_img
         else if aspect_delta w h < float64 (1 / 10) then
           (if max w h > side then
              bind_result (resize_lanczos_fit_long l pil_img side) (\<lambda>img_fit.
              pad_to_square l img_fit side False ''telea'')
            else pad_to_square l pil_img side False ''telea'')
         else
           bind_result (resize_lanczos_fit_long l pil_img side) (\<lambda>img_fit.
           let w = int (im_width img_fit); h = int (im_height img_fit)
           in if \<not> allow_crop then pad_to_square l img_fit side False ''telea''
              else if w \<ge> side \<and> h \<ge> side then
                (let (cx, cy) =
                       (if use_saliency then
                          (case saliency l img_fit of (b0, b1, b2, b3) \<Rightarrow>
                             ((b0 + b2) div 2, (b1 + b3) div 2))
                        else (w div 2, h div 2));
                     x0 = max 0 (min (w - side) (cx - side div 2));
                     y0 = max 0 (min (h - side) (cy - side div 2))
                 in crop img_fit (x0, y0, x0 + side, y0 + side))
              else pad_to_square l img_fit side False ''telea''))"

text \<open>
  The first half of \<open>fit_to_size\<close>: the local \<open>img_fit\<close>, the image after the optional
  downscale.
\<close>

definition fit_to_size_img_fit :: "lib \<Rightarrow> image \<Rightarrow> int \<Rightarrow> int \<Rightarrow> image result" where
  "fit_to_size_img_fit l pil_img target_w target_h =
     (let w = int (im_width pil_img); h = int (im_height pil_img);
          img_aspect = (if h > 0 then float64 (of_int w / of_int h) else 1);
          target_aspect = (if target_h > 0 then float64 (of_int target_w / of_int target_h) else 1);
          needs_downscale = (w > target_w \<or> h > target_h)
      in if needs_downscale then
           bind_result
             (if img_aspect \<ge> target_aspect then
                bind_result (float_div (of_int target_w) (of_int w)) (\<lambda>scale.
                Inr (target_w, max 1 (py_int (float64 (of_int h * scale)))))
              else
                bind_result (float_div (of_int target_h) (of_int h)) (\<lambda>scale.
                Inr (max 1 (py_int (float64 (of_int w * scale))), target_h)))
             (\<lambda>(new_w, new_h).
           bind_result
             (if new_w > target_w then
                bind_result (float_div (of_int target_w) (of_int new_w)) (\<lambda>f.
                Inr (target_w, py_int (float64 (of_int new_h * f))))
              else Inr (new_w, new_h))
             (\<lambda>(new_w, new_h).
           bind_result
             (if new_h > target_h then
                bind_result (float_div (of_int target_h) (of_int new_h)) (\<lambda>f.
                Inr (py_int (float64 (of_int new_w * f)), target_h))
              else Inr (new_w, new_h))
             (\<lambda>(new_w, new_h).
           resize_lanczos_to_box l pil_img (new_w, new_h))))
         else Inr pil_img)"

definition fit_to_size :: "lib \<Rightarrow> image \<Rightarrow> int \<Rightarrow> int \<Rightarrow> bool \<Rightarrow> image result" where
  "fit_to_size l pil_img target_w target_h allow_crop =
     (if int (im_width pil_img) = target_w \<and> int (im_height pil_img) = target_h then Inr pil_img
      else
        bind_result (fit_to_size_img_fit l pil_img target_w target_h) (\<lambda>img_fit.
        let w = int (im_width img_fit); h = int (im_height img_fit)
        in if \<not> allow_crop then
             bind_result (image_new target_w target_h) (\<lambda>canvas.
             let x = (target_w - w) div 2; y = (target_h - h) div 2
             in Inr (paste canvas img_fit (x, y)))
           else if w \<ge> target_w \<and> h \<ge> target_h then
             (let x0 = (w - target_w) div 2; y0 = (h - target_h) div 2
              in crop img_fit (x0, y0, x0 + target_w, y0 + target_h))
           else
             bind_result (image_new target_w target_h) (\<lambda>canvas.
             let x = (target_w - w) div 2; y = (target_h - h) div 2
             in Inr (paste canvas img_fit (x, y)))))"

section \<open>io.py and the outside world\<close>


text \<open>
  The metadata dictionary is an association list in insertion order; its values are what
  \<open>json.dumps\<close> can write.
\<close>

datatype json = JStr string | JInt int | JBool bool | JList "json list"

type_synonym meta = "(string \<times> json) list"

text \<open>
  What \<open>process_one\<close> does to the file system is a trace of events: an image saved to
  a path (with the ICC profile passed on), a file left by the super-resolution tool at its
  output path, a file removed, a metadata line appended to a log. A save, a removal or an
  append that raises adds nothing to the trace. The tool is an external program that may
  leave its output file and fail all the same, so whether it wrote is part of its outcome.
\<close>

datatype 'p event =
    Saved 'p image "string option"
  | Ran_realesrgan 'p 'p
  | Unlinked 'p
  | Logged 'p meta












section \<open>pipeline.py\<close>















section \<open>Reading a trace\<close>

text \<open>
  The paths at which an image file was written (by a save or by the tool) and the
  records that were logged, in order; and the property of an action that each event it
  adds to the trace satisfies \<open>P\<close>.
\<close>

definition written_paths :: "'p event list \<Rightarrow> 'p list" where
  "written_paths tr =
     concat (map (\<lambda>ev. case ev of Saved p img icc \<Rightarrow> [p] | Ran_realesrgan a b \<Rightarrow> [b]
                        | _ \<Rightarrow> []) tr)"



section \<open>Concrete inputs\<close>

text \<open>
  A stand-in for the image libraries, used to evaluate the model on concrete inputs:
  resampling takes the nearest source pixel, inpainting makes the canvas opaque, the alpha
  filters leave the alpha plane as it is, and the saliency estimate is the whole image
  (the fallback of \<open>bbox_from_saliency\<close>).
\<close>

definition sample_lib :: lib where
  "sample_lib =
     \<lparr>lanczos = (\<lambda>img nw nh x y. im_pix img (x * im_width img div nw) (y * im_height img div nh)),
      nearest = (\<lambda>img nw nh x y. im_pix img (x * im_width img div nw) (y * im_height img div nh)),
      cv2_inpaint = (\<lambda>flag img x y. (im_pix img x y)\<lparr>alpha := 255\<rparr>),
      cv2_dilate = (\<lambda>radius img x y. alpha (im_pix img x y)),
      cv2_gaussian_blur = (\<lambda>radius img x y. alpha (im_pix img x y)),
      saliency = (\<lambda>img. (0, 0, int (im_width img) - 1, int (im_height img) - 1))\<rparr>"

text \<open>
  A test image of the given mode and size: the pixel at \<open>(x, y)\<close> has red \<open>x\<close>,
  green \<open>y\<close>, blue 7 and the given alpha.
\<close>

definition test_image :: "string \<Rightarrow> nat \<Rightarrow> nat \<Rightarrow> 8 word \<Rightarrow> image" where
  "test_image m w h a =
     \<lparr>im_mode = m, im_width = w, im_height = h,
      im_pix = (\<lambda>x y. \<lparr>red = of_nat x, green = of_nat y, blue = 7, alpha = a\<rparr>)\<rparr>"






section \<open>Properties\<close>

subsection \<open>round\_to\_power\_of\_two\<close>

lemma pow2_loop_returns:
  "0 < p \<Longrightarrow> \<exists>k. pow2_loop p v = Some (p * 2 ^ k) \<and> v \<le> p * 2 ^ k \<and> (0 < k \<longrightarrow> p * 2 ^ (k - 1) < v)"
proof (induction "nat (v - p)" arbitrary: p rule: less_induct)
  case less
  show ?case
  proof (cases "p < v")
    case False
    then have "pow2_loop p v = Some (p * 2 ^ 0)"
      by (subst pow2_loop.simps) simp
    with False show ?thesis
      by (intro exI [of _ 0]) simp
  next
    case True
    with less.prems have "nat (v - p * 2) < nat (v - p)" and "0 < p * 2"
      by simp_all
    from less.hyps [OF this] obtain k where
      k: "pow2_loop (p * 2) v = Some (p * 2 * 2 ^ k)" "v \<le> p * 2 * 2 ^ k"
         "0 < k \<longrightarrow> p * 2 * 2 ^ (k - 1) < v"
      by blast
    from True k(1) have "pow2_loop p v = Some (p * 2 ^ Suc k)"
      by (subst pow2_loop.simps) (simp add: mult.assoc)
    moreover from k(2) have "v \<le> p * 2 ^ Suc k"
      by (simp add: mult.assoc)
    moreover have "p * 2 ^ (Suc k - 1) < v"
    proof (cases k)
      case 0
      with True show ?thesis by simp
    next
      case (Suc j)
      with k(3) show ?thesis by (simp add: mult.assoc)
    qed
    ultimately show ?thesis
      by (intro exI [of _ "Suc k"]) simp
  qed
qed

lemma round_to_power_of_two_cases:
  assumes "0 < v"
  shows "\<exists>k. v \<le> 2 ^ k \<and> (0 < k \<longrightarrow> 2 ^ (k - 1) < v) \<and>
             round_to_power_of_two v =
               Some (if 0 < k \<and> \<not> (2 ^ k - v < v - 2 ^ (k - 1)) then 2 ^ (k - 1) else 2 ^ k)"
proof -
  from pow2_loop_returns [of 1 v] obtain k where
    k: "pow2_loop 1 v = Some (2 ^ k)" "v \<le> 2 ^ k" "0 < k \<longrightarrow> 2 ^ (k - 1) < v"
    by auto
  show ?thesis
  proof (cases k)
    case 0
    with k assms have "v = 1" by simp
    with k 0 show ?thesis
      by (intro exI [of _ 0]) (simp add: round_to_power_of_two_def)
  next
    case (Suc j)
    then have half: "(2::int) ^ k div 2 = 2 ^ (k - 1)" "0 < (2::int) ^ (k - 1)"
      by simp_all
    with k assms Suc show ?thesis
      by (intro exI [of _ k]) (simp add: round_to_power_of_two_def)
  qed
qed

lemma pow2_above: "k \<le> j \<Longrightarrow> (2::int) ^ k \<le> 2 ^ j"
  by (simp add: power_increasing)

lemma pow2_below: "j < k \<Longrightarrow> (2::int) ^ j \<le> 2 ^ (k - 1)"
  by (simp add: power_increasing)

text \<open>
  Claim C4, as the code has it. For every positive \<open>v\<close>, \<open>round_to_power_of_two v\<close>
  returns a power of two that is at least as close to \<open>v\<close> as every other power of two,
  and when two powers of two are equally close (\<open>v\<close> exactly halfway) it returns the
  smaller one. In particular 100 gives 128, 65 gives 64, and the tie 96 gives 64.
\<close>

theorem round_to_power_of_two_nearest:
  "(0 < v \<longrightarrow>
      (\<exists>r k. round_to_power_of_two v = Some r \<and> r = 2 ^ k \<and>
         (\<forall>j. \<bar>r - v\<bar> \<le> \<bar>2 ^ j - v\<bar>) \<and>
         (\<forall>j. \<bar>2 ^ j - v\<bar> = \<bar>r - v\<bar> \<longrightarrow> r \<le> 2 ^ j)))
   \<and> round_to_power_of_two 100 = Some 128
   \<and> round_to_power_of_two 65 = Some 64
   \<and> round_to_power_of_two 96 = Some 64"
proof -
  have main: "\<exists>r k. round_to_power_of_two v = Some r \<and> r = 2 ^ k \<and>
         (\<forall>j. \<bar>r - v\<bar> \<le> \<bar>2 ^ j - v\<bar>) \<and>
         (\<forall>j. \<bar>2 ^ j - v\<bar> = \<bar>r - v\<bar> \<longrightarrow> r \<le> 2 ^ j)" if pos: "0 < v"
  proof -
    from round_to_power_of_two_cases [OF pos] obtain k where
      hi: "v \<le> 2 ^ k" and lo: "0 < k \<longrightarrow> 2 ^ (k - 1) < v" and
      r: "round_to_power_of_two v =
            Some (if 0 < k \<and> \<not> (2 ^ k - v < v - 2 ^ (k - 1)) then 2 ^ (k - 1) else 2 ^ k)"
      by blast
    have below: "v - 2 ^ (k - 1) \<le> \<bar>2 ^ j - v\<bar> \<and> 2 ^ j \<le> (2::int) ^ (k - 1)" if "j < k" for j
    proof -
      from that have a: "(2::int) ^ j \<le> 2 ^ (k - 1)" by (rule pow2_below)
      from that lo have b: "2 ^ (k - 1) < v" by simp
      from a b show ?thesis by linarith
    qed
    have above: "2 ^ k - v \<le> \<bar>2 ^ j - v\<bar> \<and> (2::int) ^ k \<le> 2 ^ j" if "\<not> j < k" for j
    proof -
      from that have a: "(2::int) ^ k \<le> 2 ^ j" by (intro pow2_above) simp
      from a hi show ?thesis by linarith
    qed
    show ?thesis
    proof (cases "0 < k \<and> \<not> (2 ^ k - v < v - 2 ^ (k - 1))")
      case True
      from r have res: "round_to_power_of_two v = Some (2 ^ (k - 1))"
        unfolding if_P [OF True] .
      from True lo have l: "2 ^ (k - 1) < v" and t: "v - 2 ^ (k - 1) \<le> 2 ^ k - v"
        by simp_all
      have "\<bar>2 ^ (k - 1) - v\<bar> \<le> \<bar>2 ^ j - v\<bar>" for j
        using below [of j] above [of j] l t by (cases "j < k") linarith+
      moreover have "\<bar>2 ^ j - v\<bar> = \<bar>2 ^ (k - 1) - v\<bar> \<longrightarrow> 2 ^ (k - 1) \<le> (2::int) ^ j" for j
        using below [of j] above [of j] l t hi by (cases "j < k") linarith+
      ultimately show ?thesis using res by blast
    next
      case False
      from r have res: "round_to_power_of_two v = Some (2 ^ k)"
        unfolding if_not_P [OF False] .
      have t: "0 < k \<longrightarrow> 2 ^ k - v < v - 2 ^ (k - 1)"
        using False by blast
      have "\<bar>2 ^ k - v\<bar> \<le> \<bar>2 ^ j - v\<bar>" for j
      proof (cases "j < k")
        case True
        with t have "2 ^ k - v < v - 2 ^ (k - 1)" by simp
        with below [OF True] hi show ?thesis by linarith
      next
        case False
        with above [of j] hi show ?thesis by linarith
      qed
      moreover have "\<bar>2 ^ j - v\<bar> = \<bar>2 ^ k - v\<bar> \<longrightarrow> 2 ^ k \<le> (2::int) ^ j" for j
      proof (cases "j < k")
        case True
        with t have "2 ^ k - v < v - 2 ^ (k - 1)" by simp
        with below [OF True] hi show ?thesis by linarith
      next
        case False
        with above [of j] show ?thesis by simp
      qed
      ultimately show ?thesis using res by blast
    qed
  qed
  have "round_to_power_of_two 100 = Some 128" "round_to_power_of_two 65 = Some 64"
       "round_to_power_of_two 96 = Some 64"
    by code_simp+
  with main show ?thesis by blast
qed

theorem round_to_power_of_two_nearest_witness:
  "(0::int) < 96 \<and>
   (\<exists>r k. round_to_power_of_two 96 = Some r \<and> r = 2 ^ k \<and>
      (\<forall>j. \<bar>r - 96\<bar> \<le> \<bar>2 ^ j - 96\<bar>) \<and>
      (\<forall>j. \<bar>2 ^ j - 96\<bar> = \<bar>r - 96\<bar> \<longrightarrow> r \<le> 2 ^ j))"
proof -
  have pos: "(0::int) < 96" by simp
  with round_to_power_of_two_nearest [of 96] show ?thesis by blast
qed

text \<open>
  The claim as the specification words it (a tie goes to the larger power, so 96 gives 128)
  fails: 96 is halfway between 64 and 128 and the code returns 64.
\<close>

theorem round_to_power_of_two_tie_counterexample:
  "\<bar>128 - 96\<bar> = \<bar>64 - (96::int)\<bar> \<and> round_to_power_of_two 96 = Some 64
   \<and> round_to_power_of_two 96 \<noteq> Some 128"
  by code_simp

subsection \<open>round\_to\_multiple\<close>

lemma py_round_cases:
  "(q - of_int \<lfloor>q\<rfloor> < 1 / 2 \<and> py_round q = \<lfloor>q\<rfloor>)
   \<or> (1 / 2 < q - of_int \<lfloor>q\<rfloor> \<and> py_round q = \<lfloor>q\<rfloor> + 1)
   \<or> (q - of_int \<lfloor>q\<rfloor> = 1 / 2 \<and> even (py_round q) \<and> (py_round q = \<lfloor>q\<rfloor> \<or> py_round q = \<lfloor>q\<rfloor> + 1))"
  by (auto simp: py_round_def Let_def)

lemma nearest_int_aux:
  fixes q :: rat and f r k :: int
  assumes f: "of_int f \<le> q" "q < of_int f + 1"
    and r: "r = f \<and> q - of_int f \<le> 1 / 2 \<or> r = f + 1 \<and> 1 / 2 \<le> q - of_int f"
  shows "\<bar>of_int r - q\<bar> \<le> \<bar>of_int k - q\<bar>"
proof -
  have k: "(of_int k :: rat) \<le> of_int f \<or> (of_int f :: rat) + 1 \<le> of_int k"
  proof (cases "k \<le> f")
    case True
    then show ?thesis by simp
  next
    case False
    then have "f + 1 \<le> k" by simp
    then have "(of_int (f + 1) :: rat) \<le> of_int k" by (simp only: of_int_le_iff)
    then show ?thesis by simp
  qed
  from r have r': "(of_int r :: rat) = of_int f \<and> q - of_int f \<le> 1 / 2
      \<or> (of_int r :: rat) = of_int f + 1 \<and> 1 / 2 \<le> q - of_int f"
    by auto
  from f k r' show ?thesis by linarith
qed

lemma py_round_nearest: "\<bar>of_int (py_round q) - q\<bar> \<le> \<bar>of_int k - q\<bar>"
proof (rule nearest_int_aux [where f = "\<lfloor>q\<rfloor>"])
  show "of_int \<lfloor>q\<rfloor> \<le> q" "q < of_int \<lfloor>q\<rfloor> + 1" by linarith+
  from py_round_cases [of q]
  show "py_round q = \<lfloor>q\<rfloor> \<and> q - of_int \<lfloor>q\<rfloor> \<le> 1 / 2
      \<or> py_round q = \<lfloor>q\<rfloor> + 1 \<and> 1 / 2 \<le> q - of_int \<lfloor>q\<rfloor>"
    by linarith
qed

lemma py_round_half: "q = of_int j + 1 / 2 \<Longrightarrow> even (py_round q)"
proof -
  assume q: "q = of_int j + 1 / 2"
  then have "\<lfloor>q\<rfloor> = j" by (simp add: floor_unique)
  with q have "q - of_int \<lfloor>q\<rfloor> = 1 / 2" by simp
  with py_round_cases [of q] show ?thesis by auto
qed

lemma py_round_pos: "1 / 2 < q \<Longrightarrow> 0 < py_round q"
proof -
  assume h: "1 / 2 < q"
  have "\<bar>of_int (py_round q) - q\<bar> \<le> \<bar>of_int (1::int) - q\<bar>" by (rule py_round_nearest)
  with h have "(0::rat) < of_int (py_round q)" by (simp split: if_splits add: abs_if) 
  then show ?thesis by simp
qed

text \<open>
  Claim C5, as the code has it. For every positive \<open>v\<close> and positive \<open>m\<close>,
  \<open>round_to_multiple v m\<close> returns a multiple \<open>n * m\<close> that is at least as close to
  \<open>v\<close> as every other multiple of \<open>m\<close>, and when \<open>v\<close> is exactly halfway between
  two multiples the multiple with the even factor \<open>n\<close> is returned (Python's
  \<open>round\<close> rounds half to even). So 20 to a multiple of 8 is 16, 4 to a multiple of 8
  is 0, and 12 to a multiple of 8 is 16.
\<close>

theorem round_to_multiple_nearest:
  "(0 < v \<and> 0 < m \<longrightarrow>
      (\<exists>n. round_to_multiple v m = Inr (n * m) \<and>
         (\<forall>k. \<bar>n * m - v\<bar> \<le> \<bar>k * m - v\<bar>) \<and>
         (\<forall>j. 2 * v = (2 * j + 1) * m \<longrightarrow> even n)))
   \<and> round_to_multiple 20 8 = Inr 16
   \<and> round_to_multiple 4 8 = Inr 0
   \<and> round_to_multiple 12 8 = Inr 16"
proof -
  have main: "\<exists>n. round_to_multiple v m = Inr (n * m) \<and>
         (\<forall>k. \<bar>n * m - v\<bar> \<le> \<bar>k * m - v\<bar>) \<and>
         (\<forall>j. 2 * v = (2 * j + 1) * m \<longrightarrow> even n)" if v: "0 < v" and m: "0 < m"
  proof -
    define q :: rat where "q = of_int v / of_int m"
    define n where "n = py_round q"
    from v m have res: "round_to_multiple v m = Inr (n * m)"
      by (simp add: round_to_multiple_def n_def q_def)
    have mq: "of_int m * q = (of_int v :: rat)"
      using m by (simp add: q_def)
    have near: "\<bar>n * m - v\<bar> \<le> \<bar>k * m - v\<bar>" for k
    proof -
      have "\<bar>of_int n - q\<bar> \<le> \<bar>of_int k - q\<bar>"
        unfolding n_def by (rule py_round_nearest)
      with m have "of_int m * \<bar>of_int n - q\<bar> \<le> of_int m * \<bar>of_int k - q\<bar>"
        by (simp add: mult_left_mono)
      moreover have "of_int m * \<bar>of_int i - q\<bar> = (of_int \<bar>i * m - v\<bar> :: rat)" for i
      proof -
        have "of_int m * \<bar>of_int i - q\<bar> = \<bar>of_int m * (of_int i - q)\<bar>"
          using m by (simp add: abs_mult)
        also have "of_int m * (of_int i - q) = (of_int (i * m - v) :: rat)"
          using mq by (simp add: algebra_simps)
        finally show ?thesis by simp
      qed
      ultimately have "(of_int \<bar>n * m - v\<bar> :: rat) \<le> of_int \<bar>k * m - v\<bar>" by simp
      then show ?thesis by (simp only: of_int_le_iff)
    qed
    have tie: "even n" if "2 * v = (2 * j + 1) * m" for j
    proof -
      from that have "(of_int (2 * v) :: rat) = of_int ((2 * j + 1) * m)" by simp
      with m have "q = of_int j + 1 / 2"
        by (simp add: q_def field_simps)
      then show ?thesis unfolding n_def by (rule py_round_half)
    qed
    from res near tie show ?thesis by blast
  qed
  have "round_to_multiple 20 8 = Inr 16" "round_to_multiple 4 8 = Inr 0"
       "round_to_multiple 12 8 = Inr 16"
    by code_simp+
  with main show ?thesis by blast
qed

theorem round_to_multiple_nearest_witness:
  "(0::int) < 20 \<and> (0::int) < 8 \<and>
   (\<exists>n. round_to_multiple 20 8 = Inr (n * 8) \<and>
      (\<forall>k. \<bar>n * 8 - 20\<bar> \<le> \<bar>k * 8 - 20\<bar>) \<and>
      (\<forall>j::int. 2 * 20 = (2 * j + 1) * 8 \<longrightarrow> even n))"
proof -
  have pos: "(0::int) < 20 \<and> (0::int) < 8" by simp
  with round_to_multiple_nearest [of 20 8] show ?thesis by blast
qed

text \<open>
  Rounding half away from zero, as the specification words the claim, is not what the code
  does: 20 is halfway between 16 and 24 and the result is 16, and 4 is halfway between 0
  and 8 and the result is 0.
\<close>

theorem round_to_multiple_half_counterexample:
  "round_to_multiple 20 8 = Inr 16 \<and> round_to_multiple 20 8 \<noteq> Inr 24
   \<and> round_to_multiple 4 8 = Inr 0 \<and> round_to_multiple 4 8 \<noteq> Inr 8"
  by code_simp

subsection \<open>Rounding to a float\<close>

lemma py_round_half_bound: "\<bar>of_int (py_round x) - x\<bar> \<le> 1 / 2"
proof -
  have f: "of_int \<lfloor>x\<rfloor> \<le> x" "x < of_int \<lfloor>x\<rfloor> + 1" by linarith+
  from py_round_cases [of x] have
    "(of_int (py_round x) :: rat) = of_int \<lfloor>x\<rfloor> \<and> x - of_int \<lfloor>x\<rfloor> \<le> 1 / 2
     \<or> (of_int (py_round x) :: rat) = of_int \<lfloor>x\<rfloor> + 1 \<and> 1 / 2 \<le> x - of_int \<lfloor>x\<rfloor>"
    by auto
  with f show ?thesis by linarith
qed

lemma py_round_nonneg: "0 \<le> x \<Longrightarrow> 0 \<le> py_round x"
proof -
  assume "0 \<le> x"
  then have "0 \<le> \<lfloor>x\<rfloor>" by simp
  with py_round_cases [of x] show ?thesis by linarith
qed

lemma quotient_of_abs:
  assumes "q \<noteq> 0" and "quotient_of \<bar>q\<bar> = (a, b)"
  shows "0 < a" "0 < b" "\<bar>q\<bar> = of_int a / of_int b"
proof -
  from assms(2) show b: "0 < b" by (rule quotient_of_denom_pos)
  from assms(2) show eq: "\<bar>q\<bar> = of_int a / of_int b" by (rule quotient_of_div)
  from assms(1) have "0 < \<bar>q\<bar>" by simp
  with eq b show "0 < a" by (simp add: zero_less_divide_iff)
qed

lemma bitlen_powi:
  assumes "0 < a"
  shows "(2::rat) powi (bitlen a - 1) \<le> of_int a" "(of_int a :: rat) < 2 powi bitlen a"
proof -
  from assms have l: "1 \<le> bitlen a" by (auto simp: bitlen_alt_def)
  from bitlen_bounds [OF assms] have b: "2 ^ nat (bitlen a - 1) \<le> a" "a < 2 ^ nat (bitlen a)"
    by simp_all
  from b(1) have "(of_int (2 ^ nat (bitlen a - 1)) :: rat) \<le> of_int a"
    by (simp only: of_int_le_iff)
  with l show "(2::rat) powi (bitlen a - 1) \<le> of_int a"
    by (simp add: power_int_def)
  from b(2) have "(of_int a :: rat) < of_int (2 ^ nat (bitlen a))"
    by (simp only: of_int_less_iff)
  with l show "(of_int a :: rat) < 2 powi bitlen a"
    by (simp add: power_int_def)
qed

lemma float_exponent_bounds:
  assumes "q \<noteq> 0"
  shows "2 powi (float_exponent p q + int p - 1) \<le> \<bar>q\<bar>"
    and "\<bar>q\<bar> < 2 powi (float_exponent p q + int p)"
proof -
  obtain a b where ab: "quotient_of \<bar>q\<bar> = (a, b)" by (cases "quotient_of \<bar>q\<bar>")
  note q = quotient_of_abs [OF assms ab]
  define d where "d = bitlen a - bitlen b"
  have e: "float_exponent p q = (if 2 powi d \<le> \<bar>q\<bar> then d else d - 1) - (int p - 1)"
    by (simp add: float_exponent_def ab d_def)
  have pos: "(0::rat) < 2 powi (bitlen b - 1)" "(0::rat) < of_int b" "(0::rat) < 2 powi bitlen b"
    using q(2) by simp_all
  have lo: "(2::rat) powi (d - 1) \<le> \<bar>q\<bar>"
  proof -
    have e1: "d - 1 = bitlen a - 1 - bitlen b"
      by (simp add: d_def)
    have "(2::rat) powi (d - 1) = 2 powi (bitlen a - 1) / 2 powi bitlen b"
      unfolding e1 by (subst power_int_diff) simp_all
    also have "\<dots> \<le> of_int a / 2 powi bitlen b"
      using bitlen_powi(1) [OF q(1)] pos by (simp add: divide_right_mono)
    also have "\<dots> \<le> of_int a / of_int b"
      using bitlen_powi(2) [OF q(2)] q(1) pos by (simp add: frac_le)
    finally show ?thesis by (simp add: q(3))
  qed
  have hi: "\<bar>q\<bar> < (2::rat) powi (d + 1)"
  proof -
    have "\<bar>q\<bar> = of_int a / of_int b" by (rule q(3))
    also have "\<dots> < 2 powi bitlen a / of_int b"
      using bitlen_powi(2) [OF q(1)] pos by (simp add: divide_strict_right_mono)
    also have "\<dots> \<le> 2 powi bitlen a / 2 powi (bitlen b - 1)"
      using bitlen_powi(1) [OF q(2)] pos by (simp add: frac_le)
    also have "\<dots> = 2 powi (bitlen a - (bitlen b - 1))"
      by (subst power_int_diff) simp_all
    also have "bitlen a - (bitlen b - 1) = d + 1"
      by (simp add: d_def)
    finally show ?thesis .
  qed
  show "2 powi (float_exponent p q + int p - 1) \<le> \<bar>q\<bar>"
    using lo by (simp add: e)
  show "\<bar>q\<bar> < 2 powi (float_exponent p q + int p)"
    using hi by (auto simp: e not_le)
qed

lemma round_float_error: "\<bar>round_float p q - q\<bar> \<le> \<bar>q\<bar> / 2 ^ p"
proof (cases "q = 0")
  case True
  then show ?thesis by (simp add: round_float_def)
next
  case False
  define e where "e = float_exponent p q"
  define s :: rat where "s = 2 powi e"
  have s: "0 < s" by (simp add: s_def)
  have r: "round_float p q = of_int (py_round (q / s)) * s"
    using False by (simp add: round_float_def e_def s_def)
  have "round_float p q - q = (of_int (py_round (q / s)) - q / s) * s"
    using s by (simp add: r field_simps)
  then have "\<bar>round_float p q - q\<bar> = \<bar>of_int (py_round (q / s)) - q / s\<bar> * s"
    using s by (simp add: abs_mult)
  also have "\<dots> \<le> 1 / 2 * s"
    using py_round_half_bound [of "q / s"] s by (intro mult_right_mono) simp_all
  also have "1 / 2 * s = 2 powi (e + int p - 1) / 2 ^ p"
  proof -
    have "(2::rat) powi (e + int p - 1) = 2 powi e * 2 powi (int p - 1)"
      by (subst power_int_add [symmetric]) (simp_all add: algebra_simps)
    also have "(2::rat) powi (int p - 1) = 2 ^ p / 2"
      by (subst power_int_diff) simp_all
    finally show ?thesis by (simp add: s_def)
  qed
  also have "\<dots> \<le> \<bar>q\<bar> / 2 ^ p"
    using float_exponent_bounds(1) [OF False, of p]
    by (intro divide_right_mono) (simp_all add: e_def)
  finally show ?thesis .
qed

lemma round_float_nonneg: "0 \<le> q \<Longrightarrow> 0 \<le> round_float p q"
proof -
  assume q: "0 \<le> q"
  have "(0::rat) < 2 powi float_exponent p q" by simp
  with q have "0 \<le> q / 2 powi float_exponent p q" by simp
  then have "0 \<le> py_round (q / 2 powi float_exponent p q)" by (rule py_round_nonneg)
  then show ?thesis by (simp add: round_float_def)
qed

lemma float64_bounds:
  assumes "0 \<le> q"
  shows "0 \<le> float64 q" "float64 q \<le> q * (1 + 1 / 2 ^ 53)" "q * (1 - 1 / 2 ^ 53) \<le> float64 q"
proof -
  show "0 \<le> float64 q" unfolding float64_def using assms by (rule round_float_nonneg)
  from round_float_error [of 53 q] assms have e: "\<bar>float64 q - q\<bar> \<le> q / 2 ^ 53"
    by (simp add: float64_def)
  from e have a: "float64 q \<le> q + q / 2 ^ 53" "q - q / 2 ^ 53 \<le> float64 q"
    by linarith+
  have "q * (1 + 1 / 2 ^ 53) = q + q / 2 ^ 53" "q * (1 - 1 / 2 ^ 53) = q - q / 2 ^ 53"
    by (simp_all add: algebra_simps)
  with a show "float64 q \<le> q * (1 + 1 / 2 ^ 53)" "q * (1 - 1 / 2 ^ 53) \<le> float64 q"
    by simp_all
qed

lemma round_float_of_int:
  assumes "\<bar>n\<bar> < 2 ^ p"
  shows "round_float p (of_int n) = of_int n"
proof (cases "n = 0")
  case True
  then show ?thesis by (simp add: round_float_def)
next
  case False
  define e where "e = float_exponent p (of_int n)"
  from False have nz: "(of_int n :: rat) \<noteq> 0" by simp
  from assms have "(of_int \<bar>n\<bar> :: rat) < of_int (2 ^ p)" by (simp only: of_int_less_iff)
  then have "\<bar>of_int n :: rat\<bar> < 2 powi int p" by simp
  with float_exponent_bounds(1) [OF nz, of p]
  have "(2::rat) powi (e + int p - 1) < 2 powi int p" by (simp add: e_def)
  then have "e + int p - 1 < int p"
    by (intro power_int_le_imp_less_exp [of "2::rat"]) simp_all
  then have e0: "e \<le> 0" by simp
  define k where "k = nat (- e)"
  from e0 have ek: "e = - int k" by (simp add: k_def)
  have pw: "(2::rat) powi e = 1 / 2 ^ k"
    by (simp add: ek power_int_minus field_simps)
  have "(of_int n :: rat) / 2 powi e = of_int (n * 2 ^ k)"
    by (simp add: pw)
  then have "py_round (of_int n / 2 powi e) = n * 2 ^ k"
    by (simp only: py_round_def Let_def floor_of_int) simp
  with nz show ?thesis
    by (simp add: round_float_def e_def [symmetric] pw)
qed

subsection \<open>calculate\_target\_size\<close>

lemma round_to_power_of_two_pos: "\<exists>r. round_to_power_of_two v = Some r \<and> 0 < r"
proof (cases "0 < v")
  case False
  then show ?thesis by (simp add: round_to_power_of_two_def)
next
  case True
  from round_to_power_of_two_cases [OF True] obtain k where
    "round_to_power_of_two v =
       Some (if 0 < k \<and> \<not> (2 ^ k - v < v - 2 ^ (k - 1)) then 2 ^ (k - 1) else 2 ^ k)"
    by blast
  then show ?thesis by (cases "0 < k \<and> \<not> (2 ^ k - v < v - 2 ^ (k - 1))") simp_all
qed

lemma pow2_small: "\<not> 3 \<le> k \<Longrightarrow> (2::int) ^ k \<le> 4"
  using pow2_above [of k 2] by simp

lemma round_to_power_of_two_ge8:
  assumes "7 \<le> v"
  shows "\<exists>r. round_to_power_of_two v = Some r \<and> 8 \<le> r"
proof -
  from assms have "0 < v" by simp
  from round_to_power_of_two_cases [OF this] obtain k where
    hi: "v \<le> 2 ^ k" and
    r: "round_to_power_of_two v =
       Some (if 0 < k \<and> \<not> (2 ^ k - v < v - 2 ^ (k - 1)) then 2 ^ (k - 1) else 2 ^ k)"
    by blast
  have k3: "3 \<le> k"
    using pow2_small [of k] hi assms by (cases "3 \<le> k") simp_all
  then have k8: "(8::int) \<le> 2 ^ k"
    using pow2_above [of 3 k] by simp
  show ?thesis
  proof (cases "0 < k \<and> \<not> (2 ^ k - v < v - 2 ^ (k - 1))")
    case False
    from r have "round_to_power_of_two v = Some (2 ^ k)"
      unfolding if_not_P [OF False] .
    with k8 show ?thesis by simp
  next
    case True
    from r have res: "round_to_power_of_two v = Some (2 ^ (k - 1))"
      unfolding if_P [OF True] .
    from True have "(2::int) ^ k = 2 * 2 ^ (k - 1)"
      by (cases k) simp_all
    with True assms have big: "(4::int) < 2 ^ (k - 1)" by linarith
    have "3 \<le> k - 1"
      using pow2_small [of "k - 1"] big by (cases "3 \<le> k - 1") simp_all
    then have "(8::int) \<le> 2 ^ (k - 1)"
      using pow2_above [of 3 "k - 1"] by simp
    with res show ?thesis by simp
  qed
qed

lemma round_to_multiple_pos:
  assumes "0 < m" "m < 2 * v"
  shows "\<exists>r. round_to_multiple v m = Inr r \<and> 0 < r"
proof -
  from assms have v: "0 < v" by simp
  from assms have "(of_int m :: rat) < of_int (2 * v)" by (simp only: of_int_less_iff)
  with assms(1) have "1 / 2 < (of_int v :: rat) / of_int m"
    by (simp add: field_simps)
  then have "0 < py_round (of_int v / of_int m)" by (rule py_round_pos)
  with assms v show ?thesis by (simp add: round_to_multiple_def)
qed

lemma round_to_multiple_total:
  "m \<noteq> 0 \<Longrightarrow> \<exists>r. round_to_multiple v m = Inr r"
  by (simp add: round_to_multiple_def)

lemma bind_comp_simps:
  "bind_comp (Some (Inr v)) f = f v"
  "bind_comp (returns v) f = f v"
  "bind_comp (Some (Inl e)) f = Some (Inl e)"
  "bind_comp None f = None"
  "of_loop (Some v) = returns v"
  by (simp_all add: bind_comp_def returns_def of_loop_def)

lemma truediv_nonzero: "b \<noteq> 0 \<Longrightarrow> truediv a b = Inr (a / b)"
  by (simp add: truediv_def)

lemma calculate_target_size_custom:
  "calculate_target_size width height ''custom'' (Some a) (Some b) multiple = returns (a, b)"
  by (simp add: calculate_target_size_def)

lemma auto_suggest_size_degenerate:
  "width \<le> 0 \<or> height \<le> 0 \<Longrightarrow> auto_suggest_size width height p = returns (256, 256)"
  by (simp add: auto_suggest_size_def)

lemma calculate_target_size_auto:
  "mode \<noteq> ''custom'' \<Longrightarrow> mode \<noteq> ''power_of_two'' \<Longrightarrow> mode \<noteq> ''multiple'' \<Longrightarrow>
   calculate_target_size width height mode cw ch multiple = auto_suggest_size width height True"
  by (simp add: calculate_target_size_def)

lemma calculate_target_size_power_of_two:
  "\<exists>tw th. calculate_target_size width height ''power_of_two'' cw ch multiple = returns (tw, th)
      \<and> 0 < tw \<and> 0 < th"
proof -
  define aspect :: rat where "aspect = (if height > 0 then of_int width / of_int height else 1)"
  have asp: "(if height > 0 then Some (truediv (of_int width) (of_int height)) else returns 1)
             = returns aspect"
    by (simp add: aspect_def truediv_def returns_def)
  obtain r1 where r1: "round_to_power_of_two (max width height) = Some r1" "0 < r1"
    using round_to_power_of_two_pos by blast
  show ?thesis
  proof (cases "width \<ge> height")
    case True
    then have nz: "aspect \<noteq> 0" by (auto simp: aspect_def)
    obtain r2 where r2: "round_to_power_of_two (py_round (of_int r1 / aspect)) = Some r2" "0 < r2"
      using round_to_power_of_two_pos by blast
    from True nz r1 r2 have eq:
      "calculate_target_size width height ''power_of_two'' cw ch multiple = returns (r1, max 8 r2)"
      by (simp add: calculate_target_size_def asp bind_comp_simps truediv_nonzero Let_def)
    show ?thesis unfolding eq
      by (intro exI conjI, rule refl) (use r1 in simp_all)
  next
    case False
    obtain r2 where r2: "round_to_power_of_two (py_round (of_int r1 * aspect)) = Some r2" "0 < r2"
      using round_to_power_of_two_pos by blast
    from False r1 r2 have eq:
      "calculate_target_size width height ''power_of_two'' cw ch multiple = returns (max 8 r2, r1)"
      by (simp add: calculate_target_size_def asp bind_comp_simps Let_def)
    show ?thesis unfolding eq
      by (intro exI conjI, rule refl) (use r1 in simp_all)
  qed
qed

lemma calculate_target_size_multiple:
  assumes pos: "0 < width" "0 < height" and m: "0 < multiple" "multiple < 2 * max width height"
  shows "\<exists>tw th. calculate_target_size width height ''multiple'' cw ch multiple = returns (tw, th)
      \<and> 0 < tw \<and> 0 < th"
proof -
  define aspect :: rat where "aspect = of_int width / of_int height"
  from pos have nz: "aspect \<noteq> 0" by (simp add: aspect_def)
  from pos have asp: "(if height > 0 then Some (truediv (of_int width) (of_int height)) else returns 1)
             = returns aspect"
    by (simp add: aspect_def truediv_def returns_def)
  obtain r1 where r1: "round_to_multiple (max width height) multiple = Inr r1" "0 < r1"
    using round_to_multiple_pos [OF m] by blast
  from m have m0: "multiple \<noteq> 0" by simp
  show ?thesis
  proof (cases "width \<ge> height")
    case True
    obtain r2 where r2: "round_to_multiple (py_round (of_int r1 / aspect)) multiple = Inr r2"
      using round_to_multiple_total [OF m0] by blast
    from True nz r1 r2 have eq:
      "calculate_target_size width height ''multiple'' cw ch multiple = returns (r1, max multiple r2)"
      by (simp add: calculate_target_size_def asp bind_comp_simps truediv_nonzero Let_def)
    show ?thesis unfolding eq
      by (intro exI conjI, rule refl) (use r1 m in simp_all)
  next
    case False
    obtain r2 where r2: "round_to_multiple (py_round (of_int r1 * aspect)) multiple = Inr r2"
      using round_to_multiple_total [OF m0] by blast
    from False r1 r2 have eq:
      "calculate_target_size width height ''multiple'' cw ch multiple = returns (max multiple r2, r1)"
      by (simp add: calculate_target_size_def asp bind_comp_simps Let_def)
    show ?thesis unfolding eq
      by (intro exI conjI, rule refl) (use r1 m in simp_all)
  qed
qed

lemma auto_suggest_size_pos:
  assumes pos: "0 < width" "0 < height" and big: "7 \<le> max width height"
  shows "\<exists>tw th. auto_suggest_size width height True = returns (tw, th) \<and> 0 < tw \<and> 0 < th"
proof -
  define aspect :: rat where "aspect = of_int width / of_int height"
  from pos have nz: "aspect \<noteq> 0" by (simp add: aspect_def)
  from pos have asp: "truediv (of_int width) (of_int height) = Inr aspect"
    by (simp add: aspect_def truediv_def)
  obtain r1 where r1: "round_to_power_of_two (max width height) = Some r1" "8 \<le> r1"
    using round_to_power_of_two_ge8 [OF big] by blast
  have r8: "\<exists>r. round_to_multiple x 8 = Inr r \<and> 0 < r" if "8 \<le> x" for x
    using that by (intro round_to_multiple_pos) simp_all
  from r8 [OF r1(2)] obtain a where a: "round_to_multiple r1 8 = Inr a" "0 < a" by blast
  show ?thesis
  proof (cases "width \<ge> height")
    case True
    obtain b where b: "round_to_multiple (max 8 (py_round (of_int r1 / aspect))) 8 = Inr b" "0 < b"
      using r8 [of "max 8 (py_round (of_int r1 / aspect))"] by auto
    from True pos nz r1 a b have eq: "auto_suggest_size width height True = returns (a, b)"
      by (simp add: auto_suggest_size_def asp bind_comp_simps truediv_nonzero Let_def)
    show ?thesis unfolding eq
      by (intro exI conjI, rule refl) (use a b in simp_all)
  next
    case False
    obtain b where b: "round_to_multiple (max 8 (py_round (of_int r1 * aspect))) 8 = Inr b" "0 < b"
      using r8 [of "max 8 (py_round (of_int r1 * aspect))"] by auto
    from False pos nz r1 a b have eq: "auto_suggest_size width height True = returns (b, a)"
      by (simp add: auto_suggest_size_def asp bind_comp_simps Let_def)
    show ?thesis unfolding eq
      by (intro exI conjI, rule refl) (use a b in simp_all)
  qed
qed

text \<open>
  Claim C6, as the code has it. Only the auto mode (every mode string other than
  \<open>custom\<close>, \<open>power_of_two\<close> and \<open>multiple\<close>) has the fallback: there a
  non-positive width or height returns (256, 256). The \<open>power_of_two\<close> mode returns two
  positive dimensions for every input; the \<open>custom\<close> mode returns the supplied pair as
  it is; for positive inputs the \<open>multiple\<close> mode returns two positive dimensions when
  the multiple is positive and less than twice the long side, and the auto mode does when
  the long side is at least 7.
\<close>

theorem calculate_target_size_modes:
  "(mode \<noteq> ''custom'' \<and> mode \<noteq> ''power_of_two'' \<and> mode \<noteq> ''multiple''
      \<and> (width \<le> 0 \<or> height \<le> 0) \<longrightarrow>
      calculate_target_size width height mode cw ch multiple = returns (256, 256))
   \<and> (\<exists>tw th. calculate_target_size width height ''power_of_two'' cw ch multiple = returns (tw, th)
          \<and> 0 < tw \<and> 0 < th)
   \<and> calculate_target_size width height ''custom'' (Some a) (Some b) multiple = returns (a, b)
   \<and> (0 < width \<and> 0 < height \<and> 0 < multiple \<and> multiple < 2 * max width height \<longrightarrow>
        (\<exists>tw th. calculate_target_size width height ''multiple'' cw ch multiple = returns (tw, th)
           \<and> 0 < tw \<and> 0 < th))
   \<and> (mode \<noteq> ''custom'' \<and> mode \<noteq> ''power_of_two'' \<and> mode \<noteq> ''multiple''
        \<and> 0 < width \<and> 0 < height \<and> 7 \<le> max width height \<longrightarrow>
        (\<exists>tw th. calculate_target_size width height mode cw ch multiple = returns (tw, th)
           \<and> 0 < tw \<and> 0 < th))"
proof (intro conjI impI)
  assume "mode \<noteq> ''custom'' \<and> mode \<noteq> ''power_of_two'' \<and> mode \<noteq> ''multiple''
      \<and> (width \<le> 0 \<or> height \<le> 0)"
  then show "calculate_target_size width height mode cw ch multiple = returns (256, 256)"
    by (simp add: calculate_target_size_auto auto_suggest_size_degenerate)
next
  show "\<exists>tw th. calculate_target_size width height ''power_of_two'' cw ch multiple = returns (tw, th)
          \<and> 0 < tw \<and> 0 < th"
    by (rule calculate_target_size_power_of_two)
next
  show "calculate_target_size width height ''custom'' (Some a) (Some b) multiple = returns (a, b)"
    by (rule calculate_target_size_custom)
next
  assume "0 < width \<and> 0 < height \<and> 0 < multiple \<and> multiple < 2 * max width height"
  then show "\<exists>tw th. calculate_target_size width height ''multiple'' cw ch multiple = returns (tw, th)
           \<and> 0 < tw \<and> 0 < th"
    by (intro calculate_target_size_multiple) simp_all
next
  assume h: "mode \<noteq> ''custom'' \<and> mode \<noteq> ''power_of_two'' \<and> mode \<noteq> ''multiple''
        \<and> 0 < width \<and> 0 < height \<and> 7 \<le> max width height"
  then have "calculate_target_size width height mode cw ch multiple = auto_suggest_size width height True"
    by (simp add: calculate_target_size_auto)
  moreover from h have "\<exists>tw th. auto_suggest_size width height True = returns (tw, th) \<and> 0 < tw \<and> 0 < th"
    by (intro auto_suggest_size_pos) simp_all
  ultimately show "\<exists>tw th. calculate_target_size width height mode cw ch multiple = returns (tw, th)
           \<and> 0 < tw \<and> 0 < th"
    by simp
qed

theorem calculate_target_size_modes_witness:
  "calculate_target_size 0 5 ''auto'' None None 8 = returns (256, 256)
   \<and> (\<exists>tw th. calculate_target_size 100 60 ''multiple'' None None 8 = returns (tw, th)
          \<and> 0 < tw \<and> 0 < th)
   \<and> (\<exists>tw th. calculate_target_size 100 60 ''auto'' None None 8 = returns (tw, th)
          \<and> 0 < tw \<and> 0 < th)"
proof -
  have "calculate_target_size 0 5 ''auto'' None None 8 = returns (256, 256)"
    using calculate_target_size_modes
         [where mode = "''auto''" and width = 0 and height = 5 and cw = None and ch = None
            and multiple = 8]
    by simp
  moreover have "(\<exists>tw th. calculate_target_size 100 60 ''multiple'' None None 8 = returns (tw, th)
          \<and> 0 < tw \<and> 0 < th)
   \<and> (\<exists>tw th. calculate_target_size 100 60 ''auto'' None None 8 = returns (tw, th)
          \<and> 0 < tw \<and> 0 < th)"
    using calculate_target_size_modes
         [where mode = "''auto''" and width = 100 and height = 60 and cw = None and ch = None
            and multiple = 8]
    by simp
  ultimately show ?thesis by simp
qed

text \<open>
  The claim as the specification words it fails twice: outside the auto mode a degenerate
  input does not give the fallback (0 by 0 in \<open>power_of_two\<close> mode gives (1, 8)), and a
  small positive input can give a zero dimension (4 by 4 in auto mode gives (0, 8)).
\<close>

theorem calculate_target_size_counterexample:
  "calculate_target_size 0 0 ''power_of_two'' None None 8 = returns (1, 8)
   \<and> calculate_target_size 0 0 ''power_of_two'' None None 8 \<noteq> returns (256, 256)
   \<and> calculate_target_size 4 4 ''auto'' None None 8 = returns (0, 8)"
  by code_simp

subsection \<open>is\_alpha\_bbox\_meaningful\<close>

lemma ratio_ge_iff:
  fixes a b :: int
  assumes "0 < b"
  shows "((5 / 100 :: rat) \<le> 1 - of_int a / of_int b) = (20 * a \<le> 19 * b)"
proof -
  from assms have "((5 / 100 :: rat) \<le> 1 - of_int a / of_int b)
      = ((20 :: rat) * of_int a \<le> 19 * of_int b)"
    by (simp add: field_simps)
  also have "\<dots> = ((of_int (20 * a) :: rat) \<le> of_int (19 * b))" by simp
  also have "\<dots> = (20 * a \<le> 19 * b)" by (simp only: of_int_le_iff)
  finally show ?thesis .
qed

lemma ratio_less_iff:
  fixes a b :: int
  assumes "0 < b"
  shows "((of_int a / of_int b :: rat) < 95 / 100) = (20 * a < 19 * b)"
proof -
  from assms have "((of_int a / of_int b :: rat) < 95 / 100)
      = ((20 :: rat) * of_int a < 19 * of_int b)"
    by (simp add: field_simps)
  also have "\<dots> = ((of_int (20 * a) :: rat) < of_int (19 * b))" by simp
  also have "\<dots> = (20 * a < 19 * b)" by (simp only: of_int_less_iff)
  finally show ?thesis .
qed

lemma is_alpha_bbox_meaningful_eq:
  assumes "0 < im_width img" "0 < im_height img"
  shows "is_alpha_bbox_meaningful img (x0, y0, x1, y1) min_trim_ratio_default =
     Inr ((5 / 100 :: rat) \<le> 1 - of_int ((x1 - x0 + 1) * (y1 - y0 + 1))
                               / of_int (int (im_width img) * int (im_height img))
          \<or> (of_int (x1 - x0 + 1) / of_int (int (im_width img)) :: rat) < 95 / 100
          \<or> (of_int (y1 - y0 + 1) / of_int (int (im_height img)) :: rat) < 95 / 100)"
  using assms
  by (simp add: is_alpha_bbox_meaningful_def min_trim_ratio_default_def truediv_def
      bind_result_def Let_def)

text \<open>
  Claim C7. For an image of positive size and any bounding box, with the default minimum
  trim ratio of 5 percent, \<open>is_alpha_bbox_meaningful\<close> returns true exactly when the
  trimmed-area ratio \<open>1 - bbox_area / original_area\<close> is at least 5 percent, or the width
  ratio is below 0.95, or the height ratio is below 0.95; in integers, when
  \<open>20 * bbox_area \<le> 19 * original_area\<close> or \<open>20 * bbox_width < 19 * width\<close> or
  \<open>20 * bbox_height < 19 * height\<close>. A 100 by 100 image trimmed to 99 by 100 gives false,
  and trimmed to 60 by 60 gives true.
\<close>

theorem is_alpha_bbox_meaningful_iff:
  "(0 < im_width img \<and> 0 < im_height img \<longrightarrow>
      is_alpha_bbox_meaningful img (x0, y0, x1, y1) min_trim_ratio_default =
        Inr ((5 / 100 :: rat) \<le> 1 - of_int ((x1 - x0 + 1) * (y1 - y0 + 1))
                                  / of_int (int (im_width img) * int (im_height img))
             \<or> (of_int (x1 - x0 + 1) / of_int (int (im_width img)) :: rat) < 95 / 100
             \<or> (of_int (y1 - y0 + 1) / of_int (int (im_height img)) :: rat) < 95 / 100)
      \<and> is_alpha_bbox_meaningful img (x0, y0, x1, y1) min_trim_ratio_default =
        Inr (20 * ((x1 - x0 + 1) * (y1 - y0 + 1)) \<le> 19 * (int (im_width img) * int (im_height img))
             \<or> 20 * (x1 - x0 + 1) < 19 * int (im_width img)
             \<or> 20 * (y1 - y0 + 1) < 19 * int (im_height img)))
   \<and> (im_width img = 100 \<and> im_height img = 100 \<longrightarrow>
        is_alpha_bbox_meaningful img (0, 0, 98, 99) min_trim_ratio_default = Inr False
        \<and> is_alpha_bbox_meaningful img (20, 20, 79, 79) min_trim_ratio_default = Inr True)"
proof (intro conjI impI)
  assume h: "0 < im_width img \<and> 0 < im_height img"
  then show "is_alpha_bbox_meaningful img (x0, y0, x1, y1) min_trim_ratio_default =
        Inr ((5 / 100 :: rat) \<le> 1 - of_int ((x1 - x0 + 1) * (y1 - y0 + 1))
                                  / of_int (int (im_width img) * int (im_height img))
             \<or> (of_int (x1 - x0 + 1) / of_int (int (im_width img)) :: rat) < 95 / 100
             \<or> (of_int (y1 - y0 + 1) / of_int (int (im_height img)) :: rat) < 95 / 100)"
    by (intro is_alpha_bbox_meaningful_eq) simp_all
  from h have pos: "0 < int (im_width img) * int (im_height img)" "0 < int (im_width img)"
    "0 < int (im_height img)" by simp_all
  from h show "is_alpha_bbox_meaningful img (x0, y0, x1, y1) min_trim_ratio_default =
        Inr (20 * ((x1 - x0 + 1) * (y1 - y0 + 1)) \<le> 19 * (int (im_width img) * int (im_height img))
             \<or> 20 * (x1 - x0 + 1) < 19 * int (im_width img)
             \<or> 20 * (y1 - y0 + 1) < 19 * int (im_height img))"
    unfolding ratio_ge_iff [OF pos(1), symmetric] ratio_less_iff [OF pos(2), symmetric]
      ratio_less_iff [OF pos(3), symmetric]
    by (intro is_alpha_bbox_meaningful_eq) simp_all
next
  assume h: "im_width img = 100 \<and> im_height img = 100"
  then show "is_alpha_bbox_meaningful img (0, 0, 98, 99) min_trim_ratio_default = Inr False"
    by (simp add: is_alpha_bbox_meaningful_def min_trim_ratio_default_def truediv_def
      bind_result_def Let_def)
  from h show "is_alpha_bbox_meaningful img (20, 20, 79, 79) min_trim_ratio_default = Inr True"
    by (simp add: is_alpha_bbox_meaningful_def min_trim_ratio_default_def truediv_def
      bind_result_def Let_def)
qed

theorem is_alpha_bbox_meaningful_iff_witness:
  "is_alpha_bbox_meaningful (test_image ''RGBA'' 100 100 255) (0, 0, 98, 99) min_trim_ratio_default
     = Inr False
   \<and> is_alpha_bbox_meaningful (test_image ''RGBA'' 100 100 255) (20, 20, 79, 79) min_trim_ratio_default
     = Inr True
   \<and> is_alpha_bbox_meaningful (test_image ''RGBA'' 100 100 255) (0, 0, 94, 99) min_trim_ratio_default
     = Inr True"
  using is_alpha_bbox_meaningful_iff [of "test_image ''RGBA'' 100 100 255" 0 0 94 99]
  by (simp add: test_image_def)

subsection \<open>unpremultiply\_rgba\<close>

lemma as_uint8_of_nat: "as_uint8 (of_nat n) = (of_nat n :: 8 word)"
  by (simp add: as_uint8_def py_int_def)

lemma np_clip_of_nat: "n \<le> 255 \<Longrightarrow> np_clip (of_nat n) 0 255 = of_nat n"
proof -
  assume "n \<le> 255"
  then have "(of_nat n :: rat) \<le> of_nat 255" by (simp only: of_nat_le_iff)
  then show ?thesis by (simp add: np_clip_def)
qed

lemma unat_channel: "unat (w :: 8 word) \<le> 255"
  using unsigned_less [of w, where 'a = nat] by simp

lemma as_uint8_channel: "as_uint8 (np_clip (of_nat (unat (w :: 8 word))) 0 255) = w"
  unfolding np_clip_of_nat [OF unat_channel] as_uint8_of_nat by simp

lemma as_uint8_alpha: "as_uint8 (of_nat (unat (w :: 8 word))) = w"
  unfolding as_uint8_of_nat by simp

lemma float32_of_nat: "n \<le> 255 \<Longrightarrow> float32 (of_nat n) = of_nat n"
proof -
  assume "n \<le> 255"
  then have "\<bar>int n\<bar> < 2 ^ 24" by simp
  from round_float_of_int [OF this] show ?thesis
    by (simp add: float32_def)
qed

lemma float32_channel: "float32 (of_nat (unat (w :: 8 word))) = of_nat (unat w)"
  by (rule float32_of_nat [OF unat_channel])

lemma float32_zero: "float32 0 = 0"
  by (simp add: float32_def round_float_def)

lemma float32_one: "float32 1 = 1"
  using round_float_of_int [of 1 24] by (simp add: float32_def)

lemma unpremultiply_pixel_opaque:
  assumes "alpha p = 255"
  shows "unpremultiply_pixel p = p"
proof -
  have a: "float32 ((of_nat (unat (alpha p)) :: rat) / 255) = 1"
    using assms by (simp add: float32_one)
  have d: "np_clip 1 lo 1 = 1" for lo :: rat
    by (simp add: np_clip_def)
  have c: "(if m then float32 (of_nat (unat w) / 1) else of_nat (unat w)) = (of_nat (unat w) :: rat)"
    for m and w :: "8 word"
    using float32_channel [of w] by simp
  have "unpremultiply_pixel p =
      \<lparr>red = as_uint8 (np_clip (of_nat (unat (red p))) 0 255),
       green = as_uint8 (np_clip (of_nat (unat (green p))) 0 255),
       blue = as_uint8 (np_clip (of_nat (unat (blue p))) 0 255),
       alpha = as_uint8 (of_nat (unat (alpha p)))\<rparr>"
    unfolding unpremultiply_pixel_def Let_def a d c by (rule refl)
  then show ?thesis
    unfolding as_uint8_channel as_uint8_alpha by simp
qed

lemma unpremultiply_pixel_transparent:
  assumes "alpha p = 0"
  shows "unpremultiply_pixel p = p"
proof -
  have a: "float32 ((of_nat (unat (alpha p)) :: rat) / 255) = 0"
    using assms by (simp add: float32_zero)
  have "(0::rat) \<le> float32 (1 / 100000)"
    unfolding float32_def by (rule round_float_nonneg) simp
  then have m: "((0::rat) > float32 (1 / 100000)) = False"
    by simp
  have "unpremultiply_pixel p =
      \<lparr>red = as_uint8 (np_clip (of_nat (unat (red p))) 0 255),
       green = as_uint8 (np_clip (of_nat (unat (green p))) 0 255),
       blue = as_uint8 (np_clip (of_nat (unat (blue p))) 0 255),
       alpha = as_uint8 (of_nat (unat (alpha p)))\<rparr>"
    unfolding unpremultiply_pixel_def Let_def a m if_False by (rule refl)
  then show ?thesis
    unfolding as_uint8_channel as_uint8_alpha by simp
qed

text \<open>
  Claim C8, as the code has it. For every RGBA image \<open>unpremultiply_rgba\<close> keeps the
  size, leaves every pixel whose alpha is 255 unchanged, and leaves every pixel whose
  alpha is 0 unchanged too: the guard skips the division, so the output RGB of such a
  pixel is its input RGB.
\<close>

theorem unpremultiply_rgba_alpha:
  "im_mode img = ''RGBA'' \<longrightarrow>
     im_width (unpremultiply_rgba img) = im_width img
     \<and> im_height (unpremultiply_rgba img) = im_height img
     \<and> (alpha (im_pix img x y) = 255 \<longrightarrow> im_pix (unpremultiply_rgba img) x y = im_pix img x y)
     \<and> (alpha (im_pix img x y) = 0 \<longrightarrow> im_pix (unpremultiply_rgba img) x y = im_pix img x y)"
  by (simp add: unpremultiply_rgba_def unpremultiply_pixel_opaque unpremultiply_pixel_transparent)

theorem unpremultiply_rgba_alpha_witness:
  "im_pix (unpremultiply_rgba (test_image ''RGBA'' 4 4 255)) 2 1 = im_pix (test_image ''RGBA'' 4 4 255) 2 1
   \<and> im_pix (unpremultiply_rgba (test_image ''RGBA'' 4 4 0)) 2 1 = im_pix (test_image ''RGBA'' 4 4 0) 2 1"
  using unpremultiply_rgba_alpha [of "test_image ''RGBA'' 4 4 255" 2 1]
    unpremultiply_rgba_alpha [of "test_image ''RGBA'' 4 4 0" 2 1]
  by (simp add: test_image_def)

text \<open>
  The claim as the specification words it (a pixel of alpha 0 comes out with RGB (0, 0, 0))
  fails on a transparent pixel that carries colour: (2, 1, 7, 0) comes out as it went in.
\<close>

theorem unpremultiply_rgba_transparent_counterexample:
  "alpha (im_pix (test_image ''RGBA'' 4 4 0) 2 1) = 0
   \<and> im_pix (unpremultiply_rgba (test_image ''RGBA'' 4 4 0)) 2 1
       = \<lparr>red = 2, green = 1, blue = 7, alpha = 0\<rparr>
   \<and> red (im_pix (unpremultiply_rgba (test_image ''RGBA'' 4 4 0)) 2 1) \<noteq> 0"
proof -
  have "alpha (im_pix (test_image ''RGBA'' 4 4 0) 2 1) = 0"
    by (simp add: test_image_def)
  from unpremultiply_pixel_transparent [OF this]
  show ?thesis
    by (simp add: test_image_def unpremultiply_rgba_def)
qed

subsection \<open>resize\_lanczos\_fit\_long\<close>

lemma rounding_slack: "(1 + 1 / 2 ^ 51) * (1 + 1 / 2 ^ 53) * (1 + 1 / 2 ^ 53) \<le> (1 + 1 / 2 ^ 49 :: rat)"
  by simp

lemma scaled_floor:
  fixes a b t T :: int
  assumes a: "0 \<le> a" and b: "0 < b" and t: "0 \<le> t" and T: "0 \<le> T" "T < 2 ^ 31"
    and x: "(of_int a * of_int t / of_int b :: rat) \<le> of_int T * (1 + 1 / 2 ^ 51)"
  shows "0 \<le> py_int (float64 (of_int a * float64 (of_int t / of_int b)))"
    and "py_int (float64 (of_int a * float64 (of_int t / of_int b))) \<le> T"
proof -
  define u :: rat where "u = 1 + 1 / 2 ^ 53"
  define s :: rat where "s = float64 (of_int t / of_int b)"
  define y :: rat where "y = float64 (of_int a * s)"
  have u: "0 \<le> u" by (simp add: u_def)
  from b t have q0: "(0::rat) \<le> of_int t / of_int b" by simp
  from float64_bounds [OF q0] have s: "0 \<le> s" "s \<le> of_int t / of_int b * u"
    by (simp_all add: s_def u_def)
  from a s(1) have x0: "0 \<le> of_int a * s" by simp
  from float64_bounds [OF x0] have y: "0 \<le> y" "y \<le> of_int a * s * u"
    by (simp_all add: y_def u_def)
  from a s(2) have "of_int a * s \<le> of_int a * (of_int t / of_int b * u)"
    by (intro mult_left_mono) simp_all
  with u have "of_int a * s * u \<le> of_int a * (of_int t / of_int b * u) * u"
    by (intro mult_right_mono)
  also have "\<dots> = of_int a * of_int t / of_int b * (u * u)"
    by simp
  also from x u have "\<dots> \<le> of_int T * (1 + 1 / 2 ^ 51) * (u * u)"
    by (intro mult_right_mono) simp_all
  also have "\<dots> = of_int T * ((1 + 1 / 2 ^ 51) * u * u)"
    by simp
  also from T(1) rounding_slack have "\<dots> \<le> of_int T * (1 + 1 / 2 ^ 49)"
    unfolding u_def by (intro mult_left_mono) simp_all
  finally have "y \<le> of_int T * (1 + 1 / 2 ^ 49)"
    using y(2) by linarith
  moreover from T(2) have "(of_int T :: rat) < of_int (2 ^ 31)"
    by (simp only: of_int_less_iff)
  then have "(of_int T :: rat) / 2 ^ 49 < 1" by simp
  then have "(of_int T :: rat) * (1 + 1 / 2 ^ 49) < of_int T + 1"
    by (simp add: algebra_simps)
  ultimately have yT: "y < of_int (T + 1)" by simp
  from y(1) have e: "py_int y = \<lfloor>y\<rfloor>" by (simp add: py_int_def)
  from y(1) show "0 \<le> py_int (float64 (of_int a * float64 (of_int t / of_int b)))"
    unfolding y_def [symmetric, unfolded s_def] y_def [symmetric] s_def [symmetric] e by simp
  from yT have "\<lfloor>y\<rfloor> < T + 1" by (simp only: floor_less_iff)
  then show "py_int (float64 (of_int a * float64 (of_int t / of_int b))) \<le> T"
    unfolding s_def [symmetric] y_def [symmetric] e by simp
qed

lemma pil_resize_new:
  assumes "1 \<le> nw" "1 \<le> nh" "(int (im_width img), int (im_height img)) \<noteq> (nw, nh)"
  shows "pil_resize f img (nw, nh) =
     Inr \<lparr>im_mode = im_mode img, im_width = nat nw, im_height = nat nh,
          im_pix = f img (nat nw) (nat nh)\<rparr>"
  using assms by (auto simp: pil_resize_def)

lemma resize_lanczos_fit_long_noop:
  "max (int (im_width img)) (int (im_height img)) \<le> target_long \<Longrightarrow>
   resize_lanczos_fit_long l img target_long = Inr img"
  by (simp add: resize_lanczos_fit_long_def Let_def)

lemma resize_lanczos_fit_long_down:
  assumes t: "0 < target_long"
    and big: "target_long < max (int (im_width img)) (int (im_height img))"
    and pil: "int (im_width img) < 2 ^ 31" "int (im_height img) < 2 ^ 31"
  shows "\<exists>nw nh. resize_lanczos_fit_long l img target_long =
             Inr \<lparr>im_mode = im_mode img, im_width = nat nw, im_height = nat nh,
                  im_pix = lanczos l img (nat nw) (nat nh)\<rparr>
           \<and> 1 \<le> nw \<and> 1 \<le> nh \<and> max nw nh = target_long
           \<and> (int (im_height img) \<le> int (im_width img) \<longrightarrow>
                nw = target_long
                \<and> nh = max 1 (py_int (float64 (of_int (int (im_height img))
                                 * float64 (of_int target_long / of_int (int (im_width img)))))))
           \<and> (int (im_width img) < int (im_height img) \<longrightarrow>
                nh = target_long
                \<and> nw = max 1 (py_int (float64 (of_int (int (im_width img))
                                 * float64 (of_int target_long / of_int (int (im_height img)))))))"
proof (cases "int (im_width img) \<ge> int (im_height img)")
  case True
  define w h where "w = int (im_width img)" and "h = int (im_height img)"
  from True big t have w: "0 < w" "h \<le> w" "0 \<le> h" "target_long < w"
    by (simp_all add: w_def h_def)
  from w pil have T: "0 \<le> target_long" "target_long < 2 ^ 31" using t by (simp_all add: w_def)
  define new_h where
    "new_h = max 1 (py_int (float64 (of_int h * float64 (of_int target_long / of_int w))))"
  have "(of_int h * of_int target_long :: rat) \<le> of_int w * of_int target_long"
    using w t by (intro mult_right_mono) simp_all
  with w have "(of_int h * of_int target_long / of_int w :: rat) \<le> of_int target_long"
    by (simp add: field_simps)
  also have "\<dots> \<le> of_int target_long * (1 + 1 / 2 ^ 51)"
    using t by (simp add: algebra_simps)
  finally have x: "(of_int h * of_int target_long / of_int w :: rat)
      \<le> of_int target_long * (1 + 1 / 2 ^ 51)" .
  from scaled_floor [OF w(3) w(1) T(1) T x] t have nh: "1 \<le> new_h" "new_h \<le> target_long"
    by (simp_all add: new_h_def)
  from w have d: "float_div (of_int target_long) (of_int w) = Inr (float64 (of_int target_long / of_int w))"
    by (simp add: float_div_def)
  from w True have eq: "resize_lanczos_fit_long l img target_long
      = pil_resize (lanczos l) img (target_long, new_h)"
    unfolding resize_lanczos_fit_long_def Let_def w_def [symmetric] h_def [symmetric] d
      bind_result_def sum.case new_h_def [symmetric]
    by simp
  from w have ne: "(int (im_width img), int (im_height img)) \<noteq> (target_long, new_h)"
    by (simp add: w_def)
  from t have t1: "1 \<le> target_long" by simp
  show ?thesis
    unfolding eq pil_resize_new [OF t1 nh(1) ne]
    using nh t1 True by (intro exI [of _ target_long] exI [of _ new_h])
      (simp add: new_h_def w_def h_def)
next
  case False
  define w h where "w = int (im_width img)" and "h = int (im_height img)"
  from False big t have h: "0 < h" "w \<le> h" "0 \<le> w" "target_long < h" "w < h"
    by (simp_all add: w_def h_def)
  from h pil have T: "0 \<le> target_long" "target_long < 2 ^ 31" using t by (simp_all add: h_def)
  define new_w where
    "new_w = max 1 (py_int (float64 (of_int w * float64 (of_int target_long / of_int h))))"
  have "(of_int w * of_int target_long :: rat) \<le> of_int h * of_int target_long"
    using h t by (intro mult_right_mono) simp_all
  with h have "(of_int w * of_int target_long / of_int h :: rat) \<le> of_int target_long"
    by (simp add: field_simps)
  also have "\<dots> \<le> of_int target_long * (1 + 1 / 2 ^ 51)"
    using t by (simp add: algebra_simps)
  finally have x: "(of_int w * of_int target_long / of_int h :: rat)
      \<le> of_int target_long * (1 + 1 / 2 ^ 51)" .
  from scaled_floor [OF h(3) h(1) T(1) T x] t have nw: "1 \<le> new_w" "new_w \<le> target_long"
    by (simp_all add: new_w_def)
  from h have d: "float_div (of_int target_long) (of_int h) = Inr (float64 (of_int target_long / of_int h))"
    by (simp add: float_div_def)
  from h have nge: "\<not> h \<le> w" by simp
  from h have big': "\<not> max w h \<le> target_long" by simp
  have eq: "resize_lanczos_fit_long l img target_long
      = pil_resize (lanczos l) img (new_w, target_long)"
    unfolding resize_lanczos_fit_long_def Let_def w_def [symmetric] h_def [symmetric] d
      bind_result_def sum.case new_w_def [symmetric] if_not_P [OF nge] if_not_P [OF big']
    by simp
  from h have ne: "(int (im_width img), int (im_height img)) \<noteq> (new_w, target_long)"
    by (simp add: h_def)
  from t have t1: "1 \<le> target_long" by simp
  show ?thesis
    unfolding eq pil_resize_new [OF nw(1) t1 ne]
    using nw t1 False by (intro exI [of _ new_w] exI [of _ target_long])
      (simp add: new_w_def w_def h_def)
qed

text \<open>
  Claim C3. For a positive \<open>target_long\<close> and an image of positive size,
  \<open>resize_lanczos_fit_long\<close> returns the image itself when its long side is at most
  \<open>target_long\<close>. Otherwise, the sides being below \<open>2 ^ 31\<close> as the sides of a PIL
  image are, it returns the whole image resampled, in the same mode, with the long side
  exactly \<open>target_long\<close> and the other side
  \<open>max(1, int(side * (target_long / long_side)))\<close> in double arithmetic, which is at most
  \<open>target_long\<close>. In both cases the width and the height of the result are at most
  \<open>target_long\<close>.
\<close>

theorem resize_lanczos_fit_long_fits:
  "0 < target_long \<and> 0 < im_width img \<and> 0 < im_height img \<longrightarrow>
     (max (int (im_width img)) (int (im_height img)) \<le> target_long \<longrightarrow>
        resize_lanczos_fit_long l img target_long = Inr img)
     \<and> (target_long < max (int (im_width img)) (int (im_height img))
          \<and> int (im_width img) < 2 ^ 31 \<and> int (im_height img) < 2 ^ 31 \<longrightarrow>
          (\<exists>out. resize_lanczos_fit_long l img target_long = Inr out
             \<and> max (int (im_width out)) (int (im_height out)) = target_long
             \<and> min (int (im_width out)) (int (im_height out)) \<le> target_long
             \<and> im_mode out = im_mode img
             \<and> im_pix out = lanczos l img (im_width out) (im_height out)
             \<and> (int (im_height img) \<le> int (im_width img) \<longrightarrow>
                  int (im_height out) =
                    max 1 (py_int (float64 (of_int (int (im_height img))
                             * float64 (of_int target_long / of_int (int (im_width img)))))))
             \<and> (int (im_width img) < int (im_height img) \<longrightarrow>
                  int (im_width out) =
                    max 1 (py_int (float64 (of_int (int (im_width img))
                             * float64 (of_int target_long / of_int (int (im_height img)))))))))
     \<and> (int (im_width img) < 2 ^ 31 \<and> int (im_height img) < 2 ^ 31 \<longrightarrow>
          (\<exists>out. resize_lanczos_fit_long l img target_long = Inr out
             \<and> int (im_width out) \<le> target_long \<and> int (im_height out) \<le> target_long))"
proof (intro impI conjI)
  assume "max (int (im_width img)) (int (im_height img)) \<le> target_long"
  then show "resize_lanczos_fit_long l img target_long = Inr img"
    by (rule resize_lanczos_fit_long_noop)
next
  assume h: "0 < target_long \<and> 0 < im_width img \<and> 0 < im_height img"
    and bigp: "target_long < max (int (im_width img)) (int (im_height img))
          \<and> int (im_width img) < 2 ^ 31 \<and> int (im_height img) < 2 ^ 31"
  from h bigp have t: "0 < target_long" and pil: "int (im_width img) < 2 ^ 31" "int (im_height img) < 2 ^ 31"
    and big: "target_long < max (int (im_width img)) (int (im_height img))"
    by simp_all
  from resize_lanczos_fit_long_down [OF t big pil, of l] obtain nw nh where
    o: "resize_lanczos_fit_long l img target_long =
             Inr \<lparr>im_mode = im_mode img, im_width = nat nw, im_height = nat nh,
                  im_pix = lanczos l img (nat nw) (nat nh)\<rparr>"
       "1 \<le> nw" "1 \<le> nh" "max nw nh = target_long"
       "int (im_height img) \<le> int (im_width img) \<longrightarrow>
                nw = target_long
                \<and> nh = max 1 (py_int (float64 (of_int (int (im_height img))
                                 * float64 (of_int target_long / of_int (int (im_width img))))))"
       "int (im_width img) < int (im_height img) \<longrightarrow>
                nh = target_long
                \<and> nw = max 1 (py_int (float64 (of_int (int (im_width img))
                                 * float64 (of_int target_long / of_int (int (im_height img))))))"
    by blast
  define out where "out = \<lparr>im_mode = im_mode img, im_width = nat nw, im_height = nat nh,
                  im_pix = lanczos l img (nat nw) (nat nh)\<rparr>"
  from o(2,3) have d: "int (im_width out) = nw" "int (im_height out) = nh"
    "im_mode out = im_mode img" "im_pix out = lanczos l img (im_width out) (im_height out)"
    by (simp_all add: out_def)
  from o(2-4) have "min nw nh \<le> target_long" by linarith
  with o(4-6) have
    "max (int (im_width out)) (int (im_height out)) = target_long"
    "min (int (im_width out)) (int (im_height out)) \<le> target_long"
    "int (im_height img) \<le> int (im_width img) \<longrightarrow>
                  int (im_height out) =
                    max 1 (py_int (float64 (of_int (int (im_height img))
                             * float64 (of_int target_long / of_int (int (im_width img))))))"
    "int (im_width img) < int (im_height img) \<longrightarrow>
                  int (im_width out) =
                    max 1 (py_int (float64 (of_int (int (im_width img))
                             * float64 (of_int target_long / of_int (int (im_height img))))))"
    unfolding d by blast+
  with o(1) [folded out_def] d(3,4) show "\<exists>out. resize_lanczos_fit_long l img target_long = Inr out
             \<and> max (int (im_width out)) (int (im_height out)) = target_long
             \<and> min (int (im_width out)) (int (im_height out)) \<le> target_long
             \<and> im_mode out = im_mode img
             \<and> im_pix out = lanczos l img (im_width out) (im_height out)
             \<and> (int (im_height img) \<le> int (im_width img) \<longrightarrow>
                  int (im_height out) =
                    max 1 (py_int (float64 (of_int (int (im_height img))
                             * float64 (of_int target_long / of_int (int (im_width img)))))))
             \<and> (int (im_width img) < int (im_height img) \<longrightarrow>
                  int (im_width out) =
                    max 1 (py_int (float64 (of_int (int (im_width img))
                             * float64 (of_int target_long / of_int (int (im_height img)))))))"
    by blast
next
  assume h: "0 < target_long \<and> 0 < im_width img \<and> 0 < im_height img"
    and p: "int (im_width img) < 2 ^ 31 \<and> int (im_height img) < 2 ^ 31"
  then have t: "0 < target_long" and pil: "int (im_width img) < 2 ^ 31" "int (im_height img) < 2 ^ 31"
    by simp_all
  show "\<exists>out. resize_lanczos_fit_long l img target_long = Inr out
           \<and> int (im_width out) \<le> target_long \<and> int (im_height out) \<le> target_long"
  proof (cases "max (int (im_width img)) (int (im_height img)) \<le> target_long")
    case True
    from resize_lanczos_fit_long_noop [OF True, of l] True show ?thesis by simp
  next
    case False
    then have big: "target_long < max (int (im_width img)) (int (im_height img))" by linarith
    from resize_lanczos_fit_long_down [OF t big pil, of l] obtain nw nh where
      o: "resize_lanczos_fit_long l img target_long =
             Inr \<lparr>im_mode = im_mode img, im_width = nat nw, im_height = nat nh,
                  im_pix = lanczos l img (nat nw) (nat nh)\<rparr>"
         "1 \<le> nw" "1 \<le> nh" "max nw nh = target_long"
      by blast
    from o(2-4) have "nw \<le> target_long \<and> nh \<le> target_long" by linarith
    with o(1-3) show ?thesis by simp
  qed
qed

theorem resize_lanczos_fit_long_fits_witness:
  "resize_lanczos_fit_long sample_lib (test_image ''RGBA'' 4 3 255) 5 = Inr (test_image ''RGBA'' 4 3 255)
   \<and> (\<exists>out. resize_lanczos_fit_long sample_lib (test_image ''RGBA'' 22 22 255) 15 = Inr out
          \<and> int (im_width out) = 15 \<and> int (im_height out) = 14
          \<and> im_mode out = ''RGBA''
          \<and> im_pix out = lanczos sample_lib (test_image ''RGBA'' 22 22 255) 15 14)"
proof -
  have v: "max 1 (py_int (float64 (22 * float64 (15 / 22)))) = 14"
    by code_simp
  have a: "resize_lanczos_fit_long sample_lib (test_image ''RGBA'' 4 3 255) 5
      = Inr (test_image ''RGBA'' 4 3 255)"
    using resize_lanczos_fit_long_fits [of 5 "test_image ''RGBA'' 4 3 255" sample_lib]
    by (simp add: test_image_def)
  from resize_lanczos_fit_long_fits [of 15 "test_image ''RGBA'' 22 22 255" sample_lib]
  obtain out where o: "resize_lanczos_fit_long sample_lib (test_image ''RGBA'' 22 22 255) 15 = Inr out"
    "max (int (im_width out)) (int (im_height out)) = 15"
    "im_mode out = ''RGBA''"
    "im_pix out = lanczos sample_lib (test_image ''RGBA'' 22 22 255) (im_width out) (im_height out)"
    "int (im_height out) = max 1 (py_int (float64 (22 * float64 (15 / 22))))"
    by (auto simp: test_image_def)
  from o(5) v have h: "int (im_height out) = 14" by simp
  with o(2) have w: "int (im_width out) = 15" by simp
  from h w have "im_height out = 14" "im_width out = 15" by simp_all
  with o(1,3,4) h w a show ?thesis by simp
qed

subsection \<open>pad\_to\_square\<close>

lemma paste_pix:
  assumes "0 \<le> ox" "0 \<le> oy"
  shows "im_pix (paste canvas img (ox, oy)) x y =
     (if nat ox \<le> x \<and> x < nat ox + im_width img \<and> nat oy \<le> y \<and> y < nat oy + im_height img
      then im_pix img (x - nat ox) (y - nat oy) else im_pix canvas x y)"
proof -
  have x: "(0 \<le> int x - ox \<and> int x - ox < int (im_width img)) = (nat ox \<le> x \<and> x < nat ox + im_width img)"
    using assms(1) by linarith
  have y: "(0 \<le> int y - oy \<and> int y - oy < int (im_height img)) = (nat oy \<le> y \<and> y < nat oy + im_height img)"
    using assms(2) by linarith
  have nx: "nat (int x - ox) = x - nat ox" using assms(1) by linarith
  have ny: "nat (int y - oy) = y - nat oy" using assms(2) by linarith
  have "im_pix (paste canvas img (ox, oy)) x y =
     (if (0 \<le> int x - ox \<and> int x - ox < int (im_width img))
         \<and> (0 \<le> int y - oy \<and> int y - oy < int (im_height img))
      then im_pix img (nat (int x - ox)) (nat (int y - oy)) else im_pix canvas x y)"
    by (simp add: paste_def Let_def)
  then show ?thesis unfolding x y nx ny by (simp add: conj_ac)
qed

lemma paste_size:
  "im_width (paste canvas img box) = im_width canvas"
  "im_height (paste canvas img box) = im_height canvas"
  "im_mode (paste canvas img box) = im_mode canvas"
  by (simp_all add: paste_def)

lemma pad_to_square_pads:
  assumes fit: "int (im_width img) \<le> side" "int (im_height img) \<le> side"
  shows "\<exists>out. pad_to_square l img side False method = Inr out
     \<and> int (im_width out) = side \<and> int (im_height out) = side
     \<and> (im_mode img = ''RGBA'' \<longrightarrow> im_mode out = ''RGBA'')
     \<and> (\<forall>x y. x < nat side \<and> y < nat side \<longrightarrow>
          im_pix out x y =
            (if nat ((side - int (im_width img)) div 2) \<le> x
                \<and> x < nat ((side - int (im_width img)) div 2) + im_width img
                \<and> nat ((side - int (im_height img)) div 2) \<le> y
                \<and> y < nat ((side - int (im_height img)) div 2) + im_height img
             then im_pix img (x - nat ((side - int (im_width img)) div 2))
                    (y - nat ((side - int (im_height img)) div 2))
             else transparent))"
proof (cases "int (im_width img) = side \<and> int (im_height img) = side")
  case True
  then have "pad_to_square l img side False method = Inr img"
    by (simp add: pad_to_square_def Let_def)
  moreover from True have "nat side = im_width img" "nat side = im_height img" by auto
  ultimately show ?thesis using True by auto
next
  case False
  define ox oy where "ox = (side - int (im_width img)) div 2" and "oy = (side - int (im_height img)) div 2"
  from fit have o: "0 \<le> ox" "0 \<le> oy" by (simp_all add: ox_def oy_def)
  from fit have s: "0 \<le> side" by linarith
  define canvas0 where "canvas0 = \<lparr>im_mode = ''RGBA'', im_width = nat side, im_height = nat side,
      im_pix = (\<lambda>x y. transparent)\<rparr>"
  from False fit s have eq: "pad_to_square l img side False method = Inr (paste canvas0 img (ox, oy))"
    unfolding pad_to_square_def Let_def if_not_P [OF False]
    by (simp add: image_new_def bind_result_def canvas0_def ox_def oy_def)
  have "im_pix (paste canvas0 img (ox, oy)) x y =
      (if nat ox \<le> x \<and> x < nat ox + im_width img \<and> nat oy \<le> y \<and> y < nat oy + im_height img
       then im_pix img (x - nat ox) (y - nat oy) else transparent)" for x y
    unfolding paste_pix [OF o] by (simp add: canvas0_def)
  moreover have "int (im_width (paste canvas0 img (ox, oy))) = side"
    "int (im_height (paste canvas0 img (ox, oy))) = side"
    "im_mode (paste canvas0 img (ox, oy)) = ''RGBA''"
    using s by (simp_all add: paste_size canvas0_def)
  ultimately show ?thesis unfolding eq ox_def oy_def by simp
qed

lemma pad_to_square_violation:
  assumes "side < int (im_width img) \<or> side < int (im_height img)"
  shows "pad_to_square l img side inpaint method =
     Inl (AssertionError (''pad_to_square invariant violated: '' @ str_int (int (im_width img))
            @ ''x'' @ str_int (int (im_height img)) @ '' > '' @ str_int side @ ''x'' @ str_int side))"
  using assms by (auto simp: pad_to_square_def Let_def)

text \<open>
  Claim C1. With inpainting disabled, an image whose width and height are at most
  \<open>side\<close> is returned as an image of exactly \<open>side\<close> by \<open>side\<close>: inside the box
  at offset \<open>((side - w) div 2, (side - h) div 2)\<close> every pixel is the pixel of the input,
  and every other pixel of the canvas is fully transparent. (Pixels are compared as RGBA
  values; an RGBA input gives an RGBA result.) An image wider or higher than \<open>side\<close>
  makes \<open>pad_to_square\<close> raise the assertion error, whatever the other arguments are.
\<close>

theorem pad_to_square_centered:
  "(int (im_width img) \<le> side \<and> int (im_height img) \<le> side \<longrightarrow>
      (\<exists>out. pad_to_square l img side False method = Inr out
         \<and> int (im_width out) = side \<and> int (im_height out) = side
         \<and> (im_mode img = ''RGBA'' \<longrightarrow> im_mode out = ''RGBA'')
         \<and> (\<forall>x y. x < nat side \<and> y < nat side \<longrightarrow>
              im_pix out x y =
                (if nat ((side - int (im_width img)) div 2) \<le> x
                    \<and> x < nat ((side - int (im_width img)) div 2) + im_width img
                    \<and> nat ((side - int (im_height img)) div 2) \<le> y
                    \<and> y < nat ((side - int (im_height img)) div 2) + im_height img
                 then im_pix img (x - nat ((side - int (im_width img)) div 2))
                        (y - nat ((side - int (im_height img)) div 2))
                 else transparent))))
   \<and> (side < int (im_width img) \<or> side < int (im_height img) \<longrightarrow>
        (\<exists>msg. pad_to_square l img side inpaint method = Inl (AssertionError msg)))"
proof (intro conjI impI)
  assume "int (im_width img) \<le> side \<and> int (im_height img) \<le> side"
  then show "\<exists>out. pad_to_square l img side False method = Inr out
         \<and> int (im_width out) = side \<and> int (im_height out) = side
         \<and> (im_mode img = ''RGBA'' \<longrightarrow> im_mode out = ''RGBA'')
         \<and> (\<forall>x y. x < nat side \<and> y < nat side \<longrightarrow>
              im_pix out x y =
                (if nat ((side - int (im_width img)) div 2) \<le> x
                    \<and> x < nat ((side - int (im_width img)) div 2) + im_width img
                    \<and> nat ((side - int (im_height img)) div 2) \<le> y
                    \<and> y < nat ((side - int (im_height img)) div 2) + im_height img
                 then im_pix img (x - nat ((side - int (im_width img)) div 2))
                        (y - nat ((side - int (im_height img)) div 2))
                 else transparent))"
    by (intro pad_to_square_pads) simp_all
next
  assume "side < int (im_width img) \<or> side < int (im_height img)"
  from pad_to_square_violation [OF this]
  show "\<exists>msg. pad_to_square l img side inpaint method = Inl (AssertionError msg)"
    by blast
qed

theorem pad_to_square_centered_witness:
  "(\<exists>out. pad_to_square sample_lib (test_image ''RGBA'' 2 1 255) 4 False ''telea'' = Inr out
      \<and> int (im_width out) = 4 \<and> int (im_height out) = 4 \<and> im_mode out = ''RGBA''
      \<and> im_pix out 1 1 = im_pix (test_image ''RGBA'' 2 1 255) 0 0
      \<and> im_pix out 2 1 = im_pix (test_image ''RGBA'' 2 1 255) 1 0
      \<and> im_pix out 0 0 = transparent \<and> im_pix out 3 1 = transparent)
   \<and> (\<exists>msg. pad_to_square sample_lib (test_image ''RGBA'' 5 1 255) 4 False ''telea''
               = Inl (AssertionError msg))"
proof -
  have fits: "int (im_width (test_image ''RGBA'' 2 1 255)) \<le> 4
      \<and> int (im_height (test_image ''RGBA'' 2 1 255)) \<le> 4"
    by (simp add: test_image_def)
  have over: "4 < int (im_width (test_image ''RGBA'' 5 1 255))
      \<or> 4 < int (im_height (test_image ''RGBA'' 5 1 255))"
    by (simp add: test_image_def)
  from fits pad_to_square_centered [of "test_image ''RGBA'' 2 1 255" 4 sample_lib "''telea''"]
  obtain out where o: "pad_to_square sample_lib (test_image ''RGBA'' 2 1 255) 4 False ''telea'' = Inr out"
    "int (im_width out) = 4" "int (im_height out) = 4"
    "im_mode (test_image ''RGBA'' 2 1 255) = ''RGBA'' \<longrightarrow> im_mode out = ''RGBA''"
    "\<forall>x y. x < nat 4 \<and> y < nat 4 \<longrightarrow>
              im_pix out x y =
                (if nat ((4 - int (im_width (test_image ''RGBA'' 2 1 255))) div 2) \<le> x
                    \<and> x < nat ((4 - int (im_width (test_image ''RGBA'' 2 1 255))) div 2)
                          + im_width (test_image ''RGBA'' 2 1 255)
                    \<and> nat ((4 - int (im_height (test_image ''RGBA'' 2 1 255))) div 2) \<le> y
                    \<and> y < nat ((4 - int (im_height (test_image ''RGBA'' 2 1 255))) div 2)
                          + im_height (test_image ''RGBA'' 2 1 255)
                 then im_pix (test_image ''RGBA'' 2 1 255)
                        (x - nat ((4 - int (im_width (test_image ''RGBA'' 2 1 255))) div 2))
                        (y - nat ((4 - int (im_height (test_image ''RGBA'' 2 1 255))) div 2))
                 else transparent)"
    by blast
  from o(4) have m: "im_mode out = ''RGBA''" by (simp add: test_image_def)
  from o(5) [rule_format, of 1 1] o(5) [rule_format, of 2 1] o(5) [rule_format, of 0 0]
    o(5) [rule_format, of 3 1]
  have p: "im_pix out 1 1 = im_pix (test_image ''RGBA'' 2 1 255) 0 0"
    "im_pix out 2 1 = im_pix (test_image ''RGBA'' 2 1 255) 1 0"
    "im_pix out 0 0 = transparent" "im_pix out 3 1 = transparent"
    by (simp_all add: test_image_def)
  from over pad_to_square_centered [of "test_image ''RGBA'' 5 1 255" 4 sample_lib "''telea''" False]
  have "\<exists>msg. pad_to_square sample_lib (test_image ''RGBA'' 5 1 255) 4 False ''telea''
               = Inl (AssertionError msg)"
    by blast
  with o(1-3) m p show ?thesis by blast
qed

subsection \<open>smart\_square and fit\_to\_size without cropping\<close>

lemma padded_canvas:
  assumes fit: "int (im_width f) \<le> tw" "int (im_height f) \<le> th"
  shows "\<exists>canvas. image_new tw th = Inr canvas
     \<and> int (im_width (paste canvas f ((tw - int (im_width f)) div 2, (th - int (im_height f)) div 2))) = tw
     \<and> int (im_height (paste canvas f ((tw - int (im_width f)) div 2, (th - int (im_height f)) div 2))) = th
     \<and> (\<forall>x y.
          im_pix (paste canvas f ((tw - int (im_width f)) div 2, (th - int (im_height f)) div 2)) x y
          = (if nat ((tw - int (im_width f)) div 2) \<le> x
                \<and> x < nat ((tw - int (im_width f)) div 2) + im_width f
                \<and> nat ((th - int (im_height f)) div 2) \<le> y
                \<and> y < nat ((th - int (im_height f)) div 2) + im_height f
             then im_pix f (x - nat ((tw - int (im_width f)) div 2))
                    (y - nat ((th - int (im_height f)) div 2))
             else transparent))"
proof -
  from fit have t: "0 \<le> tw" "0 \<le> th" by linarith+
  define canvas where "canvas = \<lparr>im_mode = ''RGBA'', im_width = nat tw, im_height = nat th,
      im_pix = (\<lambda>x y. transparent)\<rparr>"
  from t have new: "image_new tw th = Inr canvas"
    by (simp add: image_new_def canvas_def)
  have o: "0 \<le> (tw - int (im_width f)) div 2" "0 \<le> (th - int (im_height f)) div 2"
    using fit by simp_all
  from t have "int (im_width (paste canvas f ((tw - int (im_width f)) div 2, (th - int (im_height f)) div 2))) = tw"
    "int (im_height (paste canvas f ((tw - int (im_width f)) div 2, (th - int (im_height f)) div 2))) = th"
    by (simp_all add: paste_size canvas_def)
  moreover have "\<forall>x y.
          im_pix (paste canvas f ((tw - int (im_width f)) div 2, (th - int (im_height f)) div 2)) x y
          = (if nat ((tw - int (im_width f)) div 2) \<le> x
                \<and> x < nat ((tw - int (im_width f)) div 2) + im_width f
                \<and> nat ((th - int (im_height f)) div 2) \<le> y
                \<and> y < nat ((th - int (im_height f)) div 2) + im_height f
             then im_pix f (x - nat ((tw - int (im_width f)) div 2))
                    (y - nat ((th - int (im_height f)) div 2))
             else transparent)"
    unfolding paste_pix [OF o] by (simp add: canvas_def)
  ultimately show ?thesis using new by blast
qed

lemma smart_square_no_crop:
  "smart_square l img side use_saliency False =
     bind_result (resize_lanczos_fit_long l img side) (\<lambda>img_fit.
       pad_to_square l img_fit side False ''telea'')"
proof (cases "int (im_width img) = side \<and> int (im_height img) = side")
  case True
  then have "resize_lanczos_fit_long l img side = Inr img"
    by (intro resize_lanczos_fit_long_noop) simp
  moreover from True have "pad_to_square l img side False ''telea'' = Inr img"
    by (simp add: pad_to_square_def Let_def)
  moreover from True have "smart_square l img side use_saliency False = Inr img"
    by (simp add: smart_square_def Let_def)
  ultimately show ?thesis by (simp add: bind_result_def)
next
  case False
  show ?thesis
  proof (cases "max (int (im_width img)) (int (im_height img)) > side")
    case True
    with False show ?thesis
      unfolding smart_square_def Let_def if_not_P [OF False] by simp
  next
    case small: False
    then have noop: "resize_lanczos_fit_long l img side = Inr img"
      by (intro resize_lanczos_fit_long_noop) linarith
    from small show ?thesis
      unfolding smart_square_def Let_def if_not_P [OF False] noop
      by (simp add: bind_result_def)
  qed
qed

lemma ratio_slack:
  assumes "0 \<le> A" "0 \<le> B" "float64 B \<le> float64 A"
  shows "B \<le> A * (1 + 1 / 2 ^ 51)"
proof -
  from float64_bounds(3) [OF assms(2)] float64_bounds(2) [OF assms(1)] assms(3)
  have "B * (1 - 1 / 2 ^ 53) \<le> A * (1 + 1 / 2 ^ 53)" by linarith
  also have "\<dots> \<le> A * ((1 + 1 / 2 ^ 51) * (1 - 1 / 2 ^ 53))"
    using assms(1) by (intro mult_left_mono) simp_all
  finally have "B * (1 - 1 / 2 ^ 53) \<le> A * (1 + 1 / 2 ^ 51) * (1 - 1 / 2 ^ 53)"
    by (simp add: mult.assoc)
  then show ?thesis by (rule mult_right_le_imp_le) simp
qed

lemma fit_to_size_img_fit_noop:
  "int (im_width img) \<le> target_w \<Longrightarrow> int (im_height img) \<le> target_h \<Longrightarrow>
   fit_to_size_img_fit l img target_w target_h = Inr img"
  by (simp add: fit_to_size_img_fit_def Let_def)

lemma fit_to_size_img_fit_down:
  assumes pos: "0 < im_width img" "0 < im_height img"
    and t: "0 < target_w" "0 < target_h" "target_w < 2 ^ 31" "target_h < 2 ^ 31"
    and big: "target_w < int (im_width img) \<or> target_h < int (im_height img)"
  shows "\<exists>nw nh. fit_to_size_img_fit l img target_w target_h =
            Inr \<lparr>im_mode = im_mode img, im_width = nat nw, im_height = nat nh,
                 im_pix = lanczos l img (nat nw) (nat nh)\<rparr>
     \<and> 1 \<le> nw \<and> nw \<le> target_w \<and> 1 \<le> nh \<and> nh \<le> target_h
     \<and> (if float64 (of_int (int (im_width img)) / of_int (int (im_height img)))
              \<ge> float64 (of_int target_w / of_int target_h)
         then nw = target_w
              \<and> nh = max 1 (py_int (float64 (of_int (int (im_height img))
                              * float64 (of_int target_w / of_int (int (im_width img))))))
         else nh = target_h
              \<and> nw = max 1 (py_int (float64 (of_int (int (im_width img))
                              * float64 (of_int target_h / of_int (int (im_height img)))))))"
proof -
  define w h where "w = int (im_width img)" and "h = int (im_height img)"
  from pos have wh: "0 < w" "0 < h" by (simp_all add: w_def h_def)
  from big have nd: "w > target_w \<or> h > target_h" by (simp add: w_def h_def)
  from wh t have A: "(0::rat) \<le> of_int w / of_int h" and B: "(0::rat) \<le> of_int target_w / of_int target_h"
    by simp_all
  show ?thesis
  proof (cases "float64 (of_int w / of_int h) \<ge> float64 (of_int target_w / of_int target_h)")
    case wide: True
    define new_h where "new_h = max 1 (py_int (float64 (of_int h * float64 (of_int target_w / of_int w))))"
    from ratio_slack [OF A B wide]
    have "(of_int target_w / of_int target_h :: rat) \<le> of_int w / of_int h * (1 + 1 / 2 ^ 51)" .
    with wh t have x: "(of_int h * of_int target_w / of_int w :: rat) \<le> of_int target_h * (1 + 1 / 2 ^ 51)"
      by (simp add: field_simps)
    from scaled_floor [OF _ wh(1) _ _ t(4) x] wh t have nh: "1 \<le> new_h" "new_h \<le> target_h"
      by (simp_all add: new_h_def)
    from wh have s: "float_div (of_int target_w) (of_int w) = Inr (float64 (of_int target_w / of_int w))"
      by (simp add: float_div_def)
    from nh have c: "\<not> target_h < new_h" by simp
    have eq: "fit_to_size_img_fit l img target_w target_h = pil_resize (lanczos l) img (target_w, new_h)"
      unfolding fit_to_size_img_fit_def Let_def w_def [symmetric] h_def [symmetric]
        if_P [OF wh(2)] if_P [OF t(2)] if_P [OF nd] if_P [OF wide] s
      unfolding bind_result_def sum.case new_h_def [symmetric] prod.case
      using c by (simp add: resize_lanczos_to_box_def)
    from nd nh have ne: "(int (im_width img), int (im_height img)) \<noteq> (target_w, new_h)"
      by (auto simp: w_def h_def)
    from t have t1: "1 \<le> target_w" by simp
    show ?thesis
      unfolding eq pil_resize_new [OF t1 nh(1) ne] w_def [symmetric] h_def [symmetric] if_P [OF wide]
      using nh t1 by (intro exI [of _ target_w] exI [of _ new_h]) (simp add: new_h_def)
  next
    case tall: False
    define new_w where "new_w = max 1 (py_int (float64 (of_int w * float64 (of_int target_h / of_int h))))"
    from tall have le: "float64 (of_int w / of_int h) \<le> float64 (of_int target_w / of_int target_h)"
      by simp
    from ratio_slack [OF B A le]
    have "(of_int w / of_int h :: rat) \<le> of_int target_w / of_int target_h * (1 + 1 / 2 ^ 51)" .
    with wh t have x: "(of_int w * of_int target_h / of_int h :: rat) \<le> of_int target_w * (1 + 1 / 2 ^ 51)"
      by (simp add: field_simps)
    from scaled_floor [OF _ wh(2) _ _ t(3) x] wh t have nw: "1 \<le> new_w" "new_w \<le> target_w"
      by (simp_all add: new_w_def)
    from wh have s: "float_div (of_int target_h) (of_int h) = Inr (float64 (of_int target_h / of_int h))"
      by (simp add: float_div_def)
    from nw have c: "\<not> target_w < new_w" by simp
    have eq: "fit_to_size_img_fit l img target_w target_h = pil_resize (lanczos l) img (new_w, target_h)"
      unfolding fit_to_size_img_fit_def Let_def w_def [symmetric] h_def [symmetric]
        if_P [OF wh(2)] if_P [OF t(2)] if_P [OF nd] if_not_P [OF tall] s
      unfolding bind_result_def sum.case new_w_def [symmetric] prod.case
      using c by (simp add: resize_lanczos_to_box_def)
    from nd nw have ne: "(int (im_width img), int (im_height img)) \<noteq> (new_w, target_h)"
      by (auto simp: w_def h_def)
    from t have t1: "1 \<le> target_h" by simp
    show ?thesis
      unfolding eq pil_resize_new [OF nw(1) t1 ne] w_def [symmetric] h_def [symmetric] if_not_P [OF tall]
      using nw t1 by (intro exI [of _ new_w] exI [of _ target_h]) (simp add: new_w_def)
  qed
qed

lemma fit_to_size_pads:
  assumes f: "fit_to_size_img_fit l img target_w target_h = Inr f"
    and fit: "int (im_width f) \<le> target_w" "int (im_height f) \<le> target_h"
  shows "\<exists>out. fit_to_size l img target_w target_h False = Inr out
     \<and> int (im_width out) = target_w \<and> int (im_height out) = target_h
     \<and> (\<forall>x y. x < nat target_w \<and> y < nat target_h \<longrightarrow>
          im_pix out x y =
            (if nat ((target_w - int (im_width f)) div 2) \<le> x
                \<and> x < nat ((target_w - int (im_width f)) div 2) + im_width f
                \<and> nat ((target_h - int (im_height f)) div 2) \<le> y
                \<and> y < nat ((target_h - int (im_height f)) div 2) + im_height f
             then im_pix f (x - nat ((target_w - int (im_width f)) div 2))
                    (y - nat ((target_h - int (im_height f)) div 2))
             else transparent))"
proof (cases "int (im_width img) = target_w \<and> int (im_height img) = target_h")
  case True
  then have "fit_to_size_img_fit l img target_w target_h = Inr img"
    by (intro fit_to_size_img_fit_noop) simp_all
  with f have fi: "f = img" by simp
  from True have "fit_to_size l img target_w target_h False = Inr img"
    by (simp add: fit_to_size_def)
  moreover from True have "nat target_w = im_width img" "nat target_h = im_height img" by auto
  ultimately show ?thesis using True fi by auto
next
  case False
  from padded_canvas [OF fit] obtain canvas where
    c: "image_new target_w target_h = Inr canvas"
    "int (im_width (paste canvas f ((target_w - int (im_width f)) div 2, (target_h - int (im_height f)) div 2))) = target_w"
    "int (im_height (paste canvas f ((target_w - int (im_width f)) div 2, (target_h - int (im_height f)) div 2))) = target_h"
    "\<forall>x y.
          im_pix (paste canvas f ((target_w - int (im_width f)) div 2, (target_h - int (im_height f)) div 2)) x y
          = (if nat ((target_w - int (im_width f)) div 2) \<le> x
                \<and> x < nat ((target_w - int (im_width f)) div 2) + im_width f
                \<and> nat ((target_h - int (im_height f)) div 2) \<le> y
                \<and> y < nat ((target_h - int (im_height f)) div 2) + im_height f
             then im_pix f (x - nat ((target_w - int (im_width f)) div 2))
                    (y - nat ((target_h - int (im_height f)) div 2))
             else transparent)"
    by blast
  from f c(1) have "fit_to_size l img target_w target_h False =
      Inr (paste canvas f ((target_w - int (im_width f)) div 2, (target_h - int (im_height f)) div 2))"
    unfolding fit_to_size_def if_not_P [OF False]
    by (simp add: bind_result_def Let_def)
  with c(2-4) show ?thesis by simp
qed

text \<open>
  Claim C2. For an image of positive size, with \<open>allow_crop\<close> false (sizes and targets
  are PIL sizes, below \<open>2 ^ 31\<close>): for positive targets \<open>fit_to_size\<close> returns an
  image of exactly \<open>target_w\<close> by \<open>target_h\<close>, and for a positive side
  \<open>smart_square\<close> returns an image of exactly \<open>side\<close> by \<open>side\<close>. Nothing is
  cropped. The fitted image \<open>f\<close> (the local \<open>img_fit\<close>) is the input itself when the
  input fits, and otherwise the whole input resampled to a size of at least 1 by 1 that
  reaches the target in one direction and is computed in double arithmetic as the code
  does; it is no larger than the target. The result holds every pixel of \<open>f\<close> in the
  centred box and is transparent elsewhere.
\<close>

theorem fit_without_crop:
  "0 < im_width img \<and> 0 < im_height img \<longrightarrow>
     (0 < target_w \<and> target_w < 2 ^ 31 \<and> 0 < target_h \<and> target_h < 2 ^ 31 \<longrightarrow>
        (\<exists>out f. fit_to_size l img target_w target_h False = Inr out
           \<and> int (im_width out) = target_w \<and> int (im_height out) = target_h
           \<and> fit_to_size_img_fit l img target_w target_h = Inr f
           \<and> (if int (im_width img) \<le> target_w \<and> int (im_height img) \<le> target_h then f = img
               else (\<exists>nw nh.
                  f = \<lparr>im_mode = im_mode img, im_width = nat nw, im_height = nat nh,
                       im_pix = lanczos l img (nat nw) (nat nh)\<rparr>
                  \<and> 1 \<le> nw \<and> 1 \<le> nh
                  \<and> (if float64 (of_int (int (im_width img)) / of_int (int (im_height img)))
                           \<ge> float64 (of_int target_w / of_int target_h)
                      then nw = target_w
                           \<and> nh = max 1 (py_int (float64 (of_int (int (im_height img))
                                    * float64 (of_int target_w / of_int (int (im_width img))))))
                      else nh = target_h
                           \<and> nw = max 1 (py_int (float64 (of_int (int (im_width img))
                                    * float64 (of_int target_h / of_int (int (im_height img)))))))))
           \<and> int (im_width f) \<le> target_w \<and> int (im_height f) \<le> target_h
           \<and> (\<forall>x y. x < nat target_w \<and> y < nat target_h \<longrightarrow>
                im_pix out x y =
                  (if nat ((target_w - int (im_width f)) div 2) \<le> x
                      \<and> x < nat ((target_w - int (im_width f)) div 2) + im_width f
                      \<and> nat ((target_h - int (im_height f)) div 2) \<le> y
                      \<and> y < nat ((target_h - int (im_height f)) div 2) + im_height f
                   then im_pix f (x - nat ((target_w - int (im_width f)) div 2))
                          (y - nat ((target_h - int (im_height f)) div 2))
                   else transparent))))
     \<and> (0 < side \<and> int (im_width img) < 2 ^ 31 \<and> int (im_height img) < 2 ^ 31 \<longrightarrow>
        (\<exists>out f. smart_square l img side use_saliency False = Inr out
           \<and> int (im_width out) = side \<and> int (im_height out) = side
           \<and> resize_lanczos_fit_long l img side = Inr f
           \<and> (if max (int (im_width img)) (int (im_height img)) \<le> side then f = img
               else (\<exists>nw nh.
                  f = \<lparr>im_mode = im_mode img, im_width = nat nw, im_height = nat nh,
                       im_pix = lanczos l img (nat nw) (nat nh)\<rparr>
                  \<and> 1 \<le> nw \<and> 1 \<le> nh \<and> max nw nh = side
                  \<and> (int (im_height img) \<le> int (im_width img) \<longrightarrow>
                       nw = side
                       \<and> nh = max 1 (py_int (float64 (of_int (int (im_height img))
                                * float64 (of_int side / of_int (int (im_width img)))))))
                  \<and> (int (im_width img) < int (im_height img) \<longrightarrow>
                       nh = side
                       \<and> nw = max 1 (py_int (float64 (of_int (int (im_width img))
                                * float64 (of_int side / of_int (int (im_height img)))))))))
           \<and> int (im_width f) \<le> side \<and> int (im_height f) \<le> side
           \<and> (\<forall>x y. x < nat side \<and> y < nat side \<longrightarrow>
                im_pix out x y =
                  (if nat ((side - int (im_width f)) div 2) \<le> x
                      \<and> x < nat ((side - int (im_width f)) div 2) + im_width f
                      \<and> nat ((side - int (im_height f)) div 2) \<le> y
                      \<and> y < nat ((side - int (im_height f)) div 2) + im_height f
                   then im_pix f (x - nat ((side - int (im_width f)) div 2))
                          (y - nat ((side - int (im_height f)) div 2))
                   else transparent))))"
proof (intro impI conjI)
  assume pos: "0 < im_width img \<and> 0 < im_height img"
    and t: "0 < target_w \<and> target_w < 2 ^ 31 \<and> 0 < target_h \<and> target_h < 2 ^ 31"
  have "\<exists>f. fit_to_size_img_fit l img target_w target_h = Inr f
           \<and> (if int (im_width img) \<le> target_w \<and> int (im_height img) \<le> target_h then f = img
               else (\<exists>nw nh.
                  f = \<lparr>im_mode = im_mode img, im_width = nat nw, im_height = nat nh,
                       im_pix = lanczos l img (nat nw) (nat nh)\<rparr>
                  \<and> 1 \<le> nw \<and> 1 \<le> nh
                  \<and> (if float64 (of_int (int (im_width img)) / of_int (int (im_height img)))
                           \<ge> float64 (of_int target_w / of_int target_h)
                      then nw = target_w
                           \<and> nh = max 1 (py_int (float64 (of_int (int (im_height img))
                                    * float64 (of_int target_w / of_int (int (im_width img))))))
                      else nh = target_h
                           \<and> nw = max 1 (py_int (float64 (of_int (int (im_width img))
                                    * float64 (of_int target_h / of_int (int (im_height img)))))))))
           \<and> int (im_width f) \<le> target_w \<and> int (im_height f) \<le> target_h"
  proof (cases "int (im_width img) \<le> target_w \<and> int (im_height img) \<le> target_h")
    case True
    then have "fit_to_size_img_fit l img target_w target_h = Inr img"
      by (intro fit_to_size_img_fit_noop) simp_all
    with True show ?thesis by simp
  next
    case False
    then have big: "target_w < int (im_width img) \<or> target_h < int (im_height img)" by linarith
    from pos t have h: "0 < im_width img" "0 < im_height img"
      "0 < target_w" "0 < target_h" "target_w < 2 ^ 31" "target_h < 2 ^ 31"
      by simp_all
    from fit_to_size_img_fit_down [OF h big, of l] obtain nw nh where
      n: "fit_to_size_img_fit l img target_w target_h =
            Inr \<lparr>im_mode = im_mode img, im_width = nat nw, im_height = nat nh,
                 im_pix = lanczos l img (nat nw) (nat nh)\<rparr>"
         "1 \<le> nw" "nw \<le> target_w" "1 \<le> nh" "nh \<le> target_h"
         "if float64 (of_int (int (im_width img)) / of_int (int (im_height img)))
              \<ge> float64 (of_int target_w / of_int target_h)
          then nw = target_w
              \<and> nh = max 1 (py_int (float64 (of_int (int (im_height img))
                              * float64 (of_int target_w / of_int (int (im_width img))))))
          else nh = target_h
              \<and> nw = max 1 (py_int (float64 (of_int (int (im_width img))
                              * float64 (of_int target_h / of_int (int (im_height img))))))"
      by blast
    define f where "f = \<lparr>im_mode = im_mode img, im_width = nat nw, im_height = nat nh,
                 im_pix = lanczos l img (nat nw) (nat nh)\<rparr>"
    from n(2-5) have d: "int (im_width f) \<le> target_w" "int (im_height f) \<le> target_h"
      by (simp_all add: f_def)
    from n(2,4,6) have "\<exists>nw nh.
                  f = \<lparr>im_mode = im_mode img, im_width = nat nw, im_height = nat nh,
                       im_pix = lanczos l img (nat nw) (nat nh)\<rparr>
                  \<and> 1 \<le> nw \<and> 1 \<le> nh
                  \<and> (if float64 (of_int (int (im_width img)) / of_int (int (im_height img)))
                           \<ge> float64 (of_int target_w / of_int target_h)
                      then nw = target_w
                           \<and> nh = max 1 (py_int (float64 (of_int (int (im_height img))
                                    * float64 (of_int target_w / of_int (int (im_width img))))))
                      else nh = target_h
                           \<and> nw = max 1 (py_int (float64 (of_int (int (im_width img))
                                    * float64 (of_int target_h / of_int (int (im_height img)))))))"
      unfolding f_def by blast
    with n(1) [folded f_def] d False show ?thesis
      unfolding if_not_P [OF False] by blast
  qed
  then obtain f where f: "fit_to_size_img_fit l img target_w target_h = Inr f"
    "(if int (im_width img) \<le> target_w \<and> int (im_height img) \<le> target_h then f = img
               else (\<exists>nw nh.
                  f = \<lparr>im_mode = im_mode img, im_width = nat nw, im_height = nat nh,
                       im_pix = lanczos l img (nat nw) (nat nh)\<rparr>
                  \<and> 1 \<le> nw \<and> 1 \<le> nh
                  \<and> (if float64 (of_int (int (im_width img)) / of_int (int (im_height img)))
                           \<ge> float64 (of_int target_w / of_int target_h)
                      then nw = target_w
                           \<and> nh = max 1 (py_int (float64 (of_int (int (im_height img))
                                    * float64 (of_int target_w / of_int (int (im_width img))))))
                      else nh = target_h
                           \<and> nw = max 1 (py_int (float64 (of_int (int (im_width img))
                                    * float64 (of_int target_h / of_int (int (im_height img)))))))))"
    "int (im_width f) \<le> target_w" "int (im_height f) \<le> target_h"
    by blast
  from fit_to_size_pads [OF f(1,3,4)] f
  show "\<exists>out f. fit_to_size l img target_w target_h False = Inr out
           \<and> int (im_width out) = target_w \<and> int (im_height out) = target_h
           \<and> fit_to_size_img_fit l img target_w target_h = Inr f
           \<and> (if int (im_width img) \<le> target_w \<and> int (im_height img) \<le> target_h then f = img
               else (\<exists>nw nh.
                  f = \<lparr>im_mode = im_mode img, im_width = nat nw, im_height = nat nh,
                       im_pix = lanczos l img (nat nw) (nat nh)\<rparr>
                  \<and> 1 \<le> nw \<and> 1 \<le> nh
                  \<and> (if float64 (of_int (int (im_width img)) / of_int (int (im_height img)))
                           \<ge> float64 (of_int target_w / of_int target_h)
                      then nw = target_w
                           \<and> nh = max 1 (py_int (float64 (of_int (int (im_height img))
                                    * float64 (of_int target_w / of_int (int (im_width img))))))
                      else nh = target_h
                           \<and> nw = max 1 (py_int (float64 (of_int (int (im_width img))
                                    * float64 (of_int target_h / of_int (int (im_height img)))))))))
           \<and> int (im_width f) \<le> target_w \<and> int (im_height f) \<le> target_h
           \<and> (\<forall>x y. x < nat target_w \<and> y < nat target_h \<longrightarrow>
                im_pix out x y =
                  (if nat ((target_w - int (im_width f)) div 2) \<le> x
                      \<and> x < nat ((target_w - int (im_width f)) div 2) + im_width f
                      \<and> nat ((target_h - int (im_height f)) div 2) \<le> y
                      \<and> y < nat ((target_h - int (im_height f)) div 2) + im_height f
                   then im_pix f (x - nat ((target_w - int (im_width f)) div 2))
                          (y - nat ((target_h - int (im_height f)) div 2))
                   else transparent))"
    by blast
next
  assume pos: "0 < im_width img \<and> 0 < im_height img"
    and s: "0 < side \<and> int (im_width img) < 2 ^ 31 \<and> int (im_height img) < 2 ^ 31"
  have "\<exists>f. resize_lanczos_fit_long l img side = Inr f
           \<and> (if max (int (im_width img)) (int (im_height img)) \<le> side then f = img
               else (\<exists>nw nh.
                  f = \<lparr>im_mode = im_mode img, im_width = nat nw, im_height = nat nh,
                       im_pix = lanczos l img (nat nw) (nat nh)\<rparr>
                  \<and> 1 \<le> nw \<and> 1 \<le> nh \<and> max nw nh = side
                  \<and> (int (im_height img) \<le> int (im_width img) \<longrightarrow>
                       nw = side
                       \<and> nh = max 1 (py_int (float64 (of_int (int (im_height img))
                                * float64 (of_int side / of_int (int (im_width img)))))))
                  \<and> (int (im_width img) < int (im_height img) \<longrightarrow>
                       nh = side
                       \<and> nw = max 1 (py_int (float64 (of_int (int (im_width img))
                                * float64 (of_int side / of_int (int (im_height img)))))))))
           \<and> int (im_width f) \<le> side \<and> int (im_height f) \<le> side"
  proof (cases "max (int (im_width img)) (int (im_height img)) \<le> side")
    case True
    from resize_lanczos_fit_long_noop [OF True, of l] True show ?thesis by simp
  next
    case False
    then have big: "side < max (int (im_width img)) (int (im_height img))" by linarith
    from s have h: "0 < side" "int (im_width img) < 2 ^ 31" "int (im_height img) < 2 ^ 31"
      by simp_all
    from resize_lanczos_fit_long_down [OF h(1) big h(2,3), of l] obtain nw nh where
      n: "resize_lanczos_fit_long l img side =
             Inr \<lparr>im_mode = im_mode img, im_width = nat nw, im_height = nat nh,
                  im_pix = lanczos l img (nat nw) (nat nh)\<rparr>"
         "1 \<le> nw" "1 \<le> nh" "max nw nh = side"
         "int (im_height img) \<le> int (im_width img) \<longrightarrow>
                nw = side
                \<and> nh = max 1 (py_int (float64 (of_int (int (im_height img))
                                 * float64 (of_int side / of_int (int (im_width img))))))"
         "int (im_width img) < int (im_height img) \<longrightarrow>
                nh = side
                \<and> nw = max 1 (py_int (float64 (of_int (int (im_width img))
                                 * float64 (of_int side / of_int (int (im_height img))))))"
      by blast
    define f where "f = \<lparr>im_mode = im_mode img, im_width = nat nw, im_height = nat nh,
                 im_pix = lanczos l img (nat nw) (nat nh)\<rparr>"
    from n(2-4) have "nw \<le> side" "nh \<le> side" by linarith+
    with n(2,3) have d: "int (im_width f) \<le> side" "int (im_height f) \<le> side"
      by (simp_all add: f_def)
    from n(2-6) have "\<exists>nw nh.
                  f = \<lparr>im_mode = im_mode img, im_width = nat nw, im_height = nat nh,
                       im_pix = lanczos l img (nat nw) (nat nh)\<rparr>
                  \<and> 1 \<le> nw \<and> 1 \<le> nh \<and> max nw nh = side
                  \<and> (int (im_height img) \<le> int (im_width img) \<longrightarrow>
                       nw = side
                       \<and> nh = max 1 (py_int (float64 (of_int (int (im_height img))
                                * float64 (of_int side / of_int (int (im_width img)))))))
                  \<and> (int (im_width img) < int (im_height img) \<longrightarrow>
                       nh = side
                       \<and> nw = max 1 (py_int (float64 (of_int (int (im_width img))
                                * float64 (of_int side / of_int (int (im_height img)))))))"
      unfolding f_def by blast
    with n(1) [folded f_def] d show ?thesis
      unfolding if_not_P [OF False] by blast
  qed
  then obtain f where f: "resize_lanczos_fit_long l img side = Inr f"
    "(if max (int (im_width img)) (int (im_height img)) \<le> side then f = img
               else (\<exists>nw nh.
                  f = \<lparr>im_mode = im_mode img, im_width = nat nw, im_height = nat nh,
                       im_pix = lanczos l img (nat nw) (nat nh)\<rparr>
                  \<and> 1 \<le> nw \<and> 1 \<le> nh \<and> max nw nh = side
                  \<and> (int (im_height img) \<le> int (im_width img) \<longrightarrow>
                       nw = side
                       \<and> nh = max 1 (py_int (float64 (of_int (int (im_height img))
                                * float64 (of_int side / of_int (int (im_width img)))))))
                  \<and> (int (im_width img) < int (im_height img) \<longrightarrow>
                       nh = side
                       \<and> nw = max 1 (py_int (float64 (of_int (int (im_width img))
                                * float64 (of_int side / of_int (int (im_height img)))))))))"
    "int (im_width f) \<le> side" "int (im_height f) \<le> side"
    by blast
  from pad_to_square_pads [OF f(3,4), of l "''telea''"] obtain out where
    o: "pad_to_square l f side False ''telea'' = Inr out"
       "int (im_width out) = side" "int (im_height out) = side"
       "(\<forall>x y. x < nat side \<and> y < nat side \<longrightarrow>
                im_pix out x y =
                  (if nat ((side - int (im_width f)) div 2) \<le> x
                      \<and> x < nat ((side - int (im_width f)) div 2) + im_width f
                      \<and> nat ((side - int (im_height f)) div 2) \<le> y
                      \<and> y < nat ((side - int (im_height f)) div 2) + im_height f
                   then im_pix f (x - nat ((side - int (im_width f)) div 2))
                          (y - nat ((side - int (im_height f)) div 2))
                   else transparent))"
    by blast
  from f(1) o(1) have "smart_square l img side use_saliency False = Inr out"
    unfolding smart_square_no_crop by (simp add: bind_result_def)
  with f o(2-4)
  show "\<exists>out f. smart_square l img side use_saliency False = Inr out
           \<and> int (im_width out) = side \<and> int (im_height out) = side
           \<and> resize_lanczos_fit_long l img side = Inr f
           \<and> (if max (int (im_width img)) (int (im_height img)) \<le> side then f = img
               else (\<exists>nw nh.
                  f = \<lparr>im_mode = im_mode img, im_width = nat nw, im_height = nat nh,
                       im_pix = lanczos l img (nat nw) (nat nh)\<rparr>
                  \<and> 1 \<le> nw \<and> 1 \<le> nh \<and> max nw nh = side
                  \<and> (int (im_height img) \<le> int (im_width img) \<longrightarrow>
                       nw = side
                       \<and> nh = max 1 (py_int (float64 (of_int (int (im_height img))
                                * float64 (of_int side / of_int (int (im_width img)))))))
                  \<and> (int (im_width img) < int (im_height img) \<longrightarrow>
                       nh = side
                       \<and> nw = max 1 (py_int (float64 (of_int (int (im_width img))
                                * float64 (of_int side / of_int (int (im_height img)))))))))
           \<and> int (im_width f) \<le> side \<and> int (im_height f) \<le> side
           \<and> (\<forall>x y. x < nat side \<and> y < nat side \<longrightarrow>
                im_pix out x y =
                  (if nat ((side - int (im_width f)) div 2) \<le> x
                      \<and> x < nat ((side - int (im_width f)) div 2) + im_width f
                      \<and> nat ((side - int (im_height f)) div 2) \<le> y
                      \<and> y < nat ((side - int (im_height f)) div 2) + im_height f
                   then im_pix f (x - nat ((side - int (im_width f)) div 2))
                          (y - nat ((side - int (im_height f)) div 2))
                   else transparent))"
    by blast
qed

theorem fit_without_crop_witness:
  "(\<exists>out f. fit_to_size sample_lib (test_image ''RGBA'' 11 55 255) 3 15 False = Inr out
      \<and> int (im_width out) = 3 \<and> int (im_height out) = 15
      \<and> fit_to_size_img_fit sample_lib (test_image ''RGBA'' 11 55 255) 3 15 = Inr f
      \<and> im_width f = 3 \<and> im_height f = 14
      \<and> im_pix f = lanczos sample_lib (test_image ''RGBA'' 11 55 255) 3 14
      \<and> im_pix out 1 2 = im_pix f 1 2 \<and> im_pix out 1 14 = transparent)
   \<and> (\<exists>out f. smart_square sample_lib (test_image ''RGBA'' 22 22 255) 15 False False = Inr out
      \<and> int (im_width out) = 15 \<and> int (im_height out) = 15
      \<and> resize_lanczos_fit_long sample_lib (test_image ''RGBA'' 22 22 255) 15 = Inr f
      \<and> im_width f = 15 \<and> im_height f = 14
      \<and> im_pix f = lanczos sample_lib (test_image ''RGBA'' 22 22 255) 15 14
      \<and> im_pix out 3 2 = im_pix f 3 2 \<and> im_pix out 3 14 = transparent)"
proof -
  have a: "int (im_width (test_image ''RGBA'' 11 55 255)) = 11" "int (im_height (test_image ''RGBA'' 11 55 255)) = 55"
    and apos: "0 < im_width (test_image ''RGBA'' 11 55 255) \<and> 0 < im_height (test_image ''RGBA'' 11 55 255)"
    by (simp_all add: test_image_def)
  have b: "int (im_width (test_image ''RGBA'' 22 22 255)) = 22" "int (im_height (test_image ''RGBA'' 22 22 255)) = 22"
    and bpos: "0 < im_width (test_image ''RGBA'' 22 22 255) \<and> 0 < im_height (test_image ''RGBA'' 22 22 255)"
    by (simp_all add: test_image_def)
  have t: "(0::int) < 3 \<and> (3::int) < 2 ^ 31 \<and> (0::int) < 15 \<and> (15::int) < 2 ^ 31"
    and sd: "(0::int) < 15 \<and> int (im_width (test_image ''RGBA'' 22 22 255)) < 2 ^ 31 \<and> int (im_height (test_image ''RGBA'' 22 22 255)) < 2 ^ 31"
    by (simp_all add: test_image_def)
  have wide: "float64 (of_int 11 / of_int 55) \<ge> float64 (of_int 3 / of_int 15)"
    by code_simp
  have va: "max 1 (py_int (float64 (of_int 55 * float64 (of_int 3 / of_int 11)))) = 14"
    by code_simp
  have vb: "max 1 (py_int (float64 (of_int 22 * float64 (of_int 15 / of_int 22)))) = 14"
    by code_simp
  from fit_without_crop [of "(test_image ''RGBA'' 11 55 255)" 3 15 sample_lib] apos t
  obtain out f where o: "fit_to_size sample_lib (test_image ''RGBA'' 11 55 255) 3 15 False = Inr out"
    "int (im_width out) = 3" "int (im_height out) = 15"
    "fit_to_size_img_fit sample_lib (test_image ''RGBA'' 11 55 255) 3 15 = Inr f"
    "(if int (im_width (test_image ''RGBA'' 11 55 255)) \<le> 3 \<and> int (im_height (test_image ''RGBA'' 11 55 255)) \<le> 15 then f = (test_image ''RGBA'' 11 55 255)
       else (\<exists>nw nh.
          f = \<lparr>im_mode = im_mode (test_image ''RGBA'' 11 55 255), im_width = nat nw, im_height = nat nh,
               im_pix = lanczos sample_lib (test_image ''RGBA'' 11 55 255) (nat nw) (nat nh)\<rparr>
          \<and> 1 \<le> nw \<and> 1 \<le> nh
          \<and> (if float64 (of_int (int (im_width (test_image ''RGBA'' 11 55 255))) / of_int (int (im_height (test_image ''RGBA'' 11 55 255))))
                   \<ge> float64 (of_int 3 / of_int 15)
              then nw = 3
                   \<and> nh = max 1 (py_int (float64 (of_int (int (im_height (test_image ''RGBA'' 11 55 255)))
                            * float64 (of_int 3 / of_int (int (im_width (test_image ''RGBA'' 11 55 255)))))))
              else nh = 15
                   \<and> nw = max 1 (py_int (float64 (of_int (int (im_width (test_image ''RGBA'' 11 55 255)))
                            * float64 (of_int 15 / of_int (int (im_height (test_image ''RGBA'' 11 55 255))))))))))"
    "(\<forall>x y. x < nat 3 \<and> y < nat 15 \<longrightarrow>
        im_pix out x y =
          (if nat ((3 - int (im_width f)) div 2) \<le> x
              \<and> x < nat ((3 - int (im_width f)) div 2) + im_width f
              \<and> nat ((15 - int (im_height f)) div 2) \<le> y
              \<and> y < nat ((15 - int (im_height f)) div 2) + im_height f
           then im_pix f (x - nat ((3 - int (im_width f)) div 2))
                  (y - nat ((15 - int (im_height f)) div 2))
           else transparent))"
    by blast
  from o(5) obtain nw nh where
    n: "f = \<lparr>im_mode = im_mode (test_image ''RGBA'' 11 55 255), im_width = nat nw, im_height = nat nh,
               im_pix = lanczos sample_lib (test_image ''RGBA'' 11 55 255) (nat nw) (nat nh)\<rparr>"
       "nw = 3" "nh = 14"
    unfolding a if_P [OF wide] va by auto
  from n have fa: "im_width f = 3" "im_height f = 14" "im_pix f = lanczos sample_lib (test_image ''RGBA'' 11 55 255) 3 14"
    by simp_all
  from o(6) [rule_format, of 1 2] o(6) [rule_format, of 1 14]
  have pa: "im_pix out 1 2 = im_pix f 1 2" "im_pix out 1 14 = transparent"
    unfolding fa by simp_all
  from fit_without_crop [of "(test_image ''RGBA'' 22 22 255)" _ _ sample_lib 15 False] bpos sd
  obtain out' f' where o': "smart_square sample_lib (test_image ''RGBA'' 22 22 255) 15 False False = Inr out'"
    "int (im_width out') = 15" "int (im_height out') = 15"
    "resize_lanczos_fit_long sample_lib (test_image ''RGBA'' 22 22 255) 15 = Inr f'"
    "(if max (int (im_width (test_image ''RGBA'' 22 22 255))) (int (im_height (test_image ''RGBA'' 22 22 255))) \<le> 15 then f' = (test_image ''RGBA'' 22 22 255)
       else (\<exists>nw nh.
          f' = \<lparr>im_mode = im_mode (test_image ''RGBA'' 22 22 255), im_width = nat nw, im_height = nat nh,
               im_pix = lanczos sample_lib (test_image ''RGBA'' 22 22 255) (nat nw) (nat nh)\<rparr>
          \<and> 1 \<le> nw \<and> 1 \<le> nh \<and> max nw nh = 15
          \<and> (int (im_height (test_image ''RGBA'' 22 22 255)) \<le> int (im_width (test_image ''RGBA'' 22 22 255)) \<longrightarrow>
               nw = 15
               \<and> nh = max 1 (py_int (float64 (of_int (int (im_height (test_image ''RGBA'' 22 22 255)))
                        * float64 (of_int 15 / of_int (int (im_width (test_image ''RGBA'' 22 22 255))))))))
          \<and> (int (im_width (test_image ''RGBA'' 22 22 255)) < int (im_height (test_image ''RGBA'' 22 22 255)) \<longrightarrow>
               nh = 15
               \<and> nw = max 1 (py_int (float64 (of_int (int (im_width (test_image ''RGBA'' 22 22 255)))
                        * float64 (of_int 15 / of_int (int (im_height (test_image ''RGBA'' 22 22 255))))))))))"
    "(\<forall>x y. x < nat 15 \<and> y < nat 15 \<longrightarrow>
        im_pix out' x y =
          (if nat ((15 - int (im_width f')) div 2) \<le> x
              \<and> x < nat ((15 - int (im_width f')) div 2) + im_width f'
              \<and> nat ((15 - int (im_height f')) div 2) \<le> y
              \<and> y < nat ((15 - int (im_height f')) div 2) + im_height f'
           then im_pix f' (x - nat ((15 - int (im_width f')) div 2))
                  (y - nat ((15 - int (im_height f')) div 2))
           else transparent))"
    by blast
  from o'(5) obtain nw' nh' where
    n': "f' = \<lparr>im_mode = im_mode (test_image ''RGBA'' 22 22 255), im_width = nat nw', im_height = nat nh',
               im_pix = lanczos sample_lib (test_image ''RGBA'' 22 22 255) (nat nw') (nat nh')\<rparr>"
       "nw' = 15" "nh' = 14"
    unfolding b vb by auto
  from n' have fb: "im_width f' = 15" "im_height f' = 14" "im_pix f' = lanczos sample_lib (test_image ''RGBA'' 22 22 255) 15 14"
    by simp_all
  from o'(6) [rule_format, of 3 2] o'(6) [rule_format, of 3 14]
  have pb: "im_pix out' 3 2 = im_pix f' 3 2" "im_pix out' 3 14 = transparent"
    unfolding fb by simp_all
  from o(1-4) fa pa o'(1-4) fb pb show ?thesis by blast
qed

subsection \<open>process\_one\<close>









lemma written_paths_append: "written_paths (a @ b) = written_paths a @ written_paths b"
  by (simp add: written_paths_def)


















subsection \<open>Images that are not RGBA\<close>







end
